theory Spec2Isabelle
  imports Complex_Main
begin

section \<open>Constants of \<open>enhanced_chess.py\<close>\<close>

definition WINDOW_SIZE :: int where "WINDOW_SIZE = 1000"
definition BOARD_SIZE :: int where "BOARD_SIZE = 600"
definition SQUARE_SIZE :: int where "SQUARE_SIZE = BOARD_SIZE div 8"
definition MARGIN :: int where "MARGIN = 50"

section \<open>Squares of the rules library\<close>

text \<open>
  A \<open>chess.Square\<close> is a Python integer, \<open>0\<close> (a1) to \<open>63\<close> (h8).
  \<open>chess.square_rank\<close> is \<open>square >> 3\<close>, \<open>chess.square_file\<close> is \<open>square & 7\<close>
  and \<open>chess.square(file, rank)\<close> is \<open>rank * 8 + file\<close>; on Python's unbounded
  integers the shift is the floor division by 8 and the mask is the remainder modulo 8.
\<close>

type_synonym square = int

definition square_rank :: "square \<Rightarrow> int" where
  "square_rank sq = sq div 8"

definition square_file :: "square \<Rightarrow> int" where
  "square_file sq = sq mod 8"

definition chess_square :: "int \<Rightarrow> int \<Rightarrow> square" where
  "chess_square file rank = rank * 8 + file"

section \<open>Coordinate mapping\<close>

text \<open>
  \<open>self.player_color\<close> is \<open>None\<close> before the choice, \<open>True\<close> for White and \<open>False\<close>
  for Black; \<open>if self.player_color:\<close> takes \<open>None\<close> as false.
\<close>

definition truthy :: "bool option \<Rightarrow> bool" where
  "truthy c = (c = Some True)"

text \<open>\<open>ChessGame.square_to_pixel\<close>; the only field of \<open>self\<close> it reads is \<open>player_color\<close>.\<close>

definition square_to_pixel :: "bool option \<Rightarrow> square \<Rightarrow> int \<times> int" where
  "square_to_pixel pc sq =
     (let rank = square_rank sq;
          file = square_file sq;
          rank = (if truthy pc then 7 - rank else rank);
          x = MARGIN + file * SQUARE_SIZE;
          y = MARGIN + rank * SQUARE_SIZE
      in (x, y))"

text \<open>\<open>ChessGame.pixel_to_square\<close>; Python's \<open>//\<close> is the floor division, as \<open>div\<close> on \<open>int\<close>.\<close>

definition pixel_to_square :: "bool option \<Rightarrow> int \<times> int \<Rightarrow> square option" where
  "pixel_to_square pc pos =
     (case pos of (x, y) \<Rightarrow>
        if \<not> (MARGIN \<le> x \<and> x < MARGIN + BOARD_SIZE \<and> MARGIN \<le> y \<and> y < MARGIN + BOARD_SIZE)
        then None
        else
          let file = (x - MARGIN) div SQUARE_SIZE;
              rank = (y - MARGIN) div SQUARE_SIZE;
              rank = (if truthy pc then 7 - rank else rank)
          in if 0 \<le> file \<and> file < 8 \<and> 0 \<le> rank \<and> rank < 8
             then Some (chess_square file rank)
             else None)"

text \<open>
  The on-screen rectangle of a square: \<open>SQUARE_SIZE\<close> pixels wide and high, with the
  corner \<open>square_to_pixel\<close> returns as its top left (as \<open>draw_highlights\<close> blits it).
\<close>

definition in_square_rect :: "int \<times> int \<Rightarrow> int \<times> int \<Rightarrow> bool" where
  "in_square_rect corner pos =
     (fst corner \<le> fst pos \<and> fst pos < fst corner + SQUARE_SIZE \<and>
      snd corner \<le> snd pos \<and> snd pos < snd corner + SQUARE_SIZE)"

definition in_board_bounds :: "int \<times> int \<Rightarrow> bool" where
  "in_board_bounds pos =
     (MARGIN \<le> fst pos \<and> fst pos < MARGIN + BOARD_SIZE \<and>
      MARGIN \<le> snd pos \<and> snd pos < MARGIN + BOARD_SIZE)"


section \<open>The rules library (\<open>python-chess\<close>), taken as a parameter\<close>

text \<open>
  Legal-move generation, notation and the termination predicates are the library's and not
  this program's. The program is modelled over any implementation of the calls it makes:
  a type \<open>'pos\<close> of positions and a record of the library's functions.
\<close>

datatype piece_type = PAWN | KNIGHT | BISHOP | ROOK | QUEEN | KING

text \<open>A \<open>chess.Piece\<close>; \<open>chess.WHITE\<close> is \<open>True\<close> and \<open>chess.BLACK\<close> is \<open>False\<close>.\<close>

record piece =
  piece_type :: piece_type
  color :: bool

definition WHITE :: bool where "WHITE = True"
definition BLACK :: bool where "BLACK = False"

fun type_symbol :: "piece_type \<Rightarrow> char" where
  "type_symbol PAWN = CHR ''p''"
| "type_symbol KNIGHT = CHR ''n''"
| "type_symbol BISHOP = CHR ''b''"
| "type_symbol ROOK = CHR ''r''"
| "type_symbol QUEEN = CHR ''q''"
| "type_symbol KING = CHR ''k''"

fun type_symbol_upper :: "piece_type \<Rightarrow> char" where
  "type_symbol_upper PAWN = CHR ''P''"
| "type_symbol_upper KNIGHT = CHR ''N''"
| "type_symbol_upper BISHOP = CHR ''B''"
| "type_symbol_upper ROOK = CHR ''R''"
| "type_symbol_upper QUEEN = CHR ''Q''"
| "type_symbol_upper KING = CHR ''K''"

text \<open>\<open>piece.symbol().upper()\<close> and \<open>piece.symbol().lower()\<close>: the letter of the kind.\<close>

definition symbol_upper :: "piece \<Rightarrow> string" where
  "symbol_upper p = [type_symbol_upper (piece_type p)]"

definition symbol_lower :: "piece \<Rightarrow> string" where
  "symbol_lower p = [type_symbol (piece_type p)]"

text \<open>
  A \<open>chess.Move\<close> (drops, of other variants, left out). \<open>chess.Move(a, b)\<close> has no
  promotion. A move is false in a condition exactly when it is the null move.
\<close>

record move =
  from_square :: square
  to_square :: square
  promotion :: "piece_type option"

definition Move :: "square \<Rightarrow> square \<Rightarrow> move" where
  "Move a b = \<lparr>from_square = a, to_square = b, promotion = None\<rparr>"

definition move_bool :: "move \<Rightarrow> bool" where
  "move_bool m = (\<not> (from_square m = 0 \<and> to_square m = 0 \<and> promotion m = None))"

text \<open>
  A \<open>chess.Board\<close>: the current position and the stack of the moves pushed, each with
  the position it was played in, most recent first. \<open>push\<close> plays a move; \<open>pop\<close> takes
  the last move back and restores the position before it, and raises \<open>IndexError\<close> on an
  empty stack.
\<close>

record 'pos board =
  cur :: 'pos
  stack :: "('pos \<times> move) list"

record 'pos rules =
  initial :: 'pos
  turn :: "'pos \<Rightarrow> bool"
  piece_at :: "'pos \<Rightarrow> square \<Rightarrow> piece option"
  legal_moves :: "'pos \<Rightarrow> move list"
  san :: "'pos \<Rightarrow> move \<Rightarrow> string"
  make_move :: "'pos \<Rightarrow> move \<Rightarrow> 'pos"
  is_game_over :: "'pos board \<Rightarrow> bool"
  is_checkmate :: "'pos \<Rightarrow> bool"

datatype py_error = IndexError

definition new_board :: "'pos rules \<Rightarrow> 'pos board" where
  "new_board R = \<lparr>cur = initial R, stack = []\<rparr>"

definition push :: "'pos rules \<Rightarrow> 'pos board \<Rightarrow> move \<Rightarrow> 'pos board" where
  "push R b m = \<lparr>cur = make_move R (cur b) m, stack = (cur b, m) # stack b\<rparr>"

definition pop :: "'pos board \<Rightarrow> py_error + 'pos board" where
  "pop b = (case stack b of
              [] \<Rightarrow> Inl IndexError
            | (p, m) # rest \<Rightarrow> Inr \<lparr>cur = p, stack = rest\<rparr>)"

text \<open>\<open>list.pop()\<close>.\<close>

definition list_pop :: "'a list \<Rightarrow> py_error + 'a list" where
  "list_pop xs = (if xs = [] then Inl IndexError else Inr (butlast xs))"

section \<open>The environment of one step\<close>

text \<open>
  What the program reads from outside while it handles one event or one frame: the
  pointer position (\<open>pygame.mouse.get_pos()\<close>), what \<open>self.engine.play\<close> does if it is
  called (it raises, or returns a result whose move may be \<open>None\<close>), the wall clock
  (\<open>time.time()\<close>, a float, taken as a real number) and whether \<open>init_stockfish\<close> finds
  an engine.
\<close>

datatype play_outcome = PlayRaises | PlayResult "move option"

record env =
  mouse_get_pos :: "int \<times> int"
  engine_play :: play_outcome
  time_now :: real
  stockfish_found :: bool

datatype key = K_r | K_u | K_other

datatype event =
    QUIT
  | MOUSEBUTTONDOWN "int \<times> int" nat
  | MOUSEBUTTONUP "int \<times> int" nat
  | MOUSEMOTION "int \<times> int"
  | KEYDOWN key
  | OTHER

section \<open>\<open>ChessGame\<close>\<close>

text \<open>
  The fields of \<open>ChessGame\<close> (the sprite cache apart, which no decision reads), with
  \<open>captured_pieces['w']\<close> and \<open>captured_pieces['b']\<close> as \<open>captured_w\<close> and \<open>captured_b\<close>,
  \<open>engine\<close> true when an engine handle is held, and the two locals of \<open>run\<close>,
  \<open>color_selection\<close> and \<open>running\<close>.
\<close>

record 'pos game =
  board :: "'pos board"
  selected_square :: "square option"
  valid_moves :: "move list"
  last_move :: "move option"
  game_over :: bool
  ai_thinking :: bool
  move_history :: "string list"
  captured_w :: "string list"
  captured_b :: "string list"
  selected_piece :: "string option"
  selected_piece_pos :: "(int \<times> int) option"
  player_color :: "bool option"
  white_time :: real
  black_time :: real
  last_time :: real
  game_started :: bool
  checkmate_popup :: bool
  winner :: "string option"
  engine :: bool
  color_selection :: bool
  running :: bool

text \<open>\<open>ChessGame.__init__\<close>, and the locals of \<open>run\<close> as it starts.\<close>

definition init_game :: "'pos rules \<Rightarrow> env \<Rightarrow> 'pos game" where
  "init_game R e =
     \<lparr>board = new_board R, selected_square = None, valid_moves = [], last_move = None,
      game_over = False, ai_thinking = False, move_history = [],
      captured_w = [], captured_b = [], selected_piece = None, selected_piece_pos = None,
      player_color = None, white_time = 600, black_time = 600, last_time = time_now e,
      game_started = False, checkmate_popup = False, winner = None,
      engine = stockfish_found e, color_selection = True, running = True\<rparr>"

text \<open>\<open>ChessGame.reset_game\<close>.\<close>

definition reset_game :: "'pos rules \<Rightarrow> env \<Rightarrow> 'pos game \<Rightarrow> 'pos game" where
  "reset_game R e s =
     s\<lparr>board := new_board R, selected_square := None, valid_moves := [], last_move := None,
       game_over := False, ai_thinking := False, move_history := [],
       captured_w := [], captured_b := [], selected_piece := None,
       selected_piece_pos := None, player_color := None, white_time := 600,
       black_time := 600, last_time := time_now e, game_started := False,
       checkmate_popup := False, winner := None, engine := stockfish_found e\<rparr>"

text \<open>\<open>ChessGame.get_ai_move\<close>.\<close>

definition get_ai_move :: "env \<Rightarrow> 'pos game \<Rightarrow> move option" where
  "get_ai_move e s =
     (if \<not> engine s then None
      else case engine_play e of
             PlayRaises \<Rightarrow> None
           | PlayResult r \<Rightarrow> r)"

text \<open>\<open>ChessGame.update_timer\<close>, with the value \<open>time.time()\<close> returns.\<close>

definition update_timer :: "'pos rules \<Rightarrow> real \<Rightarrow> 'pos game \<Rightarrow> 'pos game" where
  "update_timer R current_time s =
     (if \<not> game_started s \<or> game_over s then s
      else
        let elapsed = current_time - last_time s;
            s = (if turn R (cur (board s)) = WHITE
                 then s\<lparr>white_time := white_time s - elapsed\<rparr>
                 else s\<lparr>black_time := black_time s - elapsed\<rparr>);
            s = s\<lparr>last_time := current_time\<rparr>
        in if white_time s \<le> 0
           then s\<lparr>game_over := True, winner := Some ''Black'', checkmate_popup := True\<rparr>
           else if black_time s \<le> 0
           then s\<lparr>game_over := True, winner := Some ''White'', checkmate_popup := True\<rparr>
           else s)"

text \<open>
  The text \<open>draw_checkmate_popup\<close> renders: nothing without the popup, else the winner
  if \<open>self.winner\<close> is set (and not the empty string), else a draw.
\<close>

definition str_truthy :: "string option \<Rightarrow> bool" where
  "str_truthy t = (case t of None \<Rightarrow> False | Some w \<Rightarrow> w \<noteq> [])"

definition popup_text :: "'pos game \<Rightarrow> string option" where
  "popup_text s =
     (if \<not> checkmate_popup s then None
      else case winner s of
             None \<Rightarrow> Some ''Draw!''
           | Some w \<Rightarrow> if w \<noteq> [] then Some (w @ '' wins!'') else Some ''Draw!'')"

text \<open>\<open>pygame.Rect(left, top, width, height).collidepoint\<close>, and the three buttons.\<close>

definition collidepoint :: "int \<times> int \<times> int \<times> int \<Rightarrow> int \<times> int \<Rightarrow> bool" where
  "collidepoint r p =
     (case r of (l, t, w, h) \<Rightarrow>
        l \<le> fst p \<and> fst p < l + w \<and> t \<le> snd p \<and> snd p < t + h)"

definition white_rect :: "int \<times> int \<times> int \<times> int" where
  "white_rect = (WINDOW_SIZE div 4, 300, 200, 60)"

definition black_rect :: "int \<times> int \<times> int \<times> int" where
  "black_rect = (WINDOW_SIZE * 3 div 4 - 200, 300, 200, 60)"

definition button_rect :: "int \<times> int \<times> int \<times> int" where
  "button_rect = ((WINDOW_SIZE - 200) div 2, WINDOW_SIZE - 100, 200, 50)"

section \<open>The event loop of \<open>ChessGame.run\<close>\<close>

text \<open>
  The capture bookkeeping of both move paths: the piece on the destination square, if
  there is one, is looked up before the move is pushed, and the letter of its kind is
  appended to the list keyed by its own colour.
\<close>

definition record_capture :: "'pos rules \<Rightarrow> 'pos game \<Rightarrow> square \<Rightarrow> 'pos game" where
  "record_capture R s target_square =
     (case piece_at R (cur (board s)) target_square of
        None \<Rightarrow> s
      | Some captured_piece \<Rightarrow>
          if color captured_piece = WHITE
          then s\<lparr>captured_w := captured_w s @ [symbol_upper captured_piece]\<rparr>
          else s\<lparr>captured_b := captured_b s @ [symbol_upper captured_piece]\<rparr>)"

text \<open>The winner's name at a checkmate: \<open>"White" if not self.board.turn else "Black"\<close>.\<close>

definition mate_winner :: "'pos rules \<Rightarrow> 'pos board \<Rightarrow> string" where
  "mate_winner R b = (if \<not> turn R (cur b) then ''White'' else ''Black'')"

text \<open>The body of the human's release once the move is among \<open>valid_moves\<close>.\<close>

definition apply_human_move :: "'pos rules \<Rightarrow> 'pos game \<Rightarrow> move \<Rightarrow> 'pos game" where
  "apply_human_move R s m =
     (let move_san = san R (cur (board s)) m;
          s = record_capture R s (to_square m);
          s = s\<lparr>board := push R (board s) m\<rparr>;
          s = s\<lparr>move_history := move_history s @ [move_san]\<rparr>;
          s = s\<lparr>last_move := Some m\<rparr>
      in if is_game_over R (board s)
         then
           let s = s\<lparr>game_over := True\<rparr>;
               s = (if is_checkmate R (cur (board s))
                    then s\<lparr>winner := Some (mate_winner R (board s))\<rparr>
                    else s)
           in s\<lparr>checkmate_popup := True\<rparr>
         else s\<lparr>ai_thinking := True\<rparr>)"

text \<open>The body of the engine's reply once the move is legal.\<close>

definition apply_ai_move :: "'pos rules \<Rightarrow> 'pos game \<Rightarrow> move \<Rightarrow> 'pos game" where
  "apply_ai_move R s ai_move =
     (let move_san = san R (cur (board s)) ai_move;
          s = record_capture R s (to_square ai_move);
          s = s\<lparr>board := push R (board s) ai_move\<rparr>;
          s = s\<lparr>move_history := move_history s @ [move_san]\<rparr>;
          s = s\<lparr>last_move := Some ai_move\<rparr>
      in if is_game_over R (board s)
         then
           let s = s\<lparr>game_over := True\<rparr>;
               s = (if is_checkmate R (cur (board s))
                    then s\<lparr>winner := Some (mate_winner R (board s))\<rparr>
                    else s)
           in s\<lparr>checkmate_popup := True\<rparr>
         else s)"

text \<open>The engine's first move as White, in the colour selection: no capture bookkeeping
  and no termination check.\<close>

definition apply_first_move :: "'pos rules \<Rightarrow> 'pos game \<Rightarrow> move \<Rightarrow> 'pos game" where
  "apply_first_move R s ai_move =
     (let move_san = san R (cur (board s)) ai_move;
          s = s\<lparr>board := push R (board s) ai_move\<rparr>;
          s = s\<lparr>move_history := move_history s @ [move_san]\<rparr>
      in s\<lparr>last_move := Some ai_move\<rparr>)"

text \<open>A mouse press while \<open>color_selection\<close> holds (any button).\<close>

definition choose_color :: "'pos rules \<Rightarrow> env \<Rightarrow> 'pos game \<Rightarrow> int \<times> int \<Rightarrow> 'pos game" where
  "choose_color R e s mouse_pos =
     (if collidepoint white_rect mouse_pos
      then s\<lparr>player_color := Some True, color_selection := False, game_started := True\<rparr>
      else if collidepoint black_rect mouse_pos
      then
        let s = s\<lparr>player_color := Some False, color_selection := False, game_started := True\<rparr>
        in case get_ai_move e s of
             None \<Rightarrow> s
           | Some ai_move \<Rightarrow>
               if move_bool ai_move \<and> ai_move \<in> set (legal_moves R (cur (board s)))
               then apply_first_move R s ai_move
               else s
      else s)"

text \<open>The condition of a press for selecting the piece under the pointer: it is of the
  side to move, and of the human's colour.\<close>

definition selectable :: "'pos rules \<Rightarrow> 'pos game \<Rightarrow> piece \<Rightarrow> bool" where
  "selectable R s p =
     (color p = turn R (cur (board s)) \<and>
      ((truthy (player_color s) \<and> color p = WHITE) \<or>
       (\<not> truthy (player_color s) \<and> color p = BLACK)))"

text \<open>A mouse press in play, with the game not over and the engine not thinking.\<close>

definition mouse_down :: "'pos rules \<Rightarrow> env \<Rightarrow> 'pos game \<Rightarrow> int \<times> int \<Rightarrow> nat \<Rightarrow> 'pos game" where
  "mouse_down R e s event_pos button =
     (if button = 1
      then
        if checkmate_popup s
        then
          if collidepoint button_rect event_pos
          then (reset_game R e s)\<lparr>color_selection := True\<rparr>
          else s
        else
          let pos = mouse_get_pos e
          in case pixel_to_square (player_color s) pos of
               None \<Rightarrow> s
             | Some sq \<Rightarrow>
                 (case piece_at R (cur (board s)) sq of
                    None \<Rightarrow> s
                  | Some p \<Rightarrow>
                      if selectable R s p
                      then s\<lparr>selected_square := Some sq,
                             valid_moves :=
                               filter (\<lambda>m. from_square m = sq) (legal_moves R (cur (board s))),
                             selected_piece :=
                               Some ((if color p = WHITE then ''w'' else ''b'') @ symbol_lower p),
                             selected_piece_pos := Some pos\<rparr>
                      else s)
      else s)"

text \<open>A mouse release in play, with the game not over and the engine not thinking.\<close>

definition mouse_up :: "'pos rules \<Rightarrow> env \<Rightarrow> 'pos game \<Rightarrow> nat \<Rightarrow> 'pos game" where
  "mouse_up R e s button =
     (case selected_square s of
        None \<Rightarrow> s
      | Some sel \<Rightarrow>
          if button = 1
          then
            let pos = mouse_get_pos e;
                s = (case pixel_to_square (player_color s) pos of
                       None \<Rightarrow> s
                     | Some target_square \<Rightarrow>
                         let m = Move sel target_square
                         in if m \<in> set (valid_moves s) then apply_human_move R s m else s)
            in s\<lparr>selected_square := None, valid_moves := [], selected_piece := None,
                 selected_piece_pos := None\<rparr>
          else s)"

text \<open>The undo of the \<open>u\<close> key, once the history holds two entries: four pops, the
  first of which to raise ends the program.\<close>

definition undo :: "'pos game \<Rightarrow> py_error + 'pos game" where
  "undo s =
     (case pop (board s) of
        Inl err \<Rightarrow> Inl err
      | Inr b1 \<Rightarrow>
          (case pop b1 of
             Inl err \<Rightarrow> Inl err
           | Inr b2 \<Rightarrow>
               (case list_pop (move_history s) of
                  Inl err \<Rightarrow> Inl err
                | Inr h1 \<Rightarrow>
                    (case list_pop h1 of
                       Inl err \<Rightarrow> Inl err
                     | Inr h2 \<Rightarrow>
                         Inr (s\<lparr>board := b2, move_history := h2, game_over := False,
                                checkmate_popup := False, ai_thinking := False,
                                selected_square := None, valid_moves := [],
                                selected_piece := None, selected_piece_pos := None\<rparr>)))))"

definition key_down :: "'pos rules \<Rightarrow> env \<Rightarrow> 'pos game \<Rightarrow> key \<Rightarrow> py_error + 'pos game" where
  "key_down R e s k =
     (case k of
        K_r \<Rightarrow> Inr ((reset_game R e s)\<lparr>color_selection := True\<rparr>)
      | K_u \<Rightarrow> if 2 \<le> length (move_history s) then undo s else Inr s
      | K_other \<Rightarrow> Inr s)"

text \<open>
  One turn of the \<open>for event in pygame.event.get()\<close> body: the chain of \<open>if\<close>/\<open>elif\<close>,
  read by the type of the event. \<open>QUIT\<close> comes first, then \<open>color_selection\<close> takes every
  other event, then the guards of each kind of event.
\<close>

definition handle_event :: "'pos rules \<Rightarrow> env \<Rightarrow> 'pos game \<Rightarrow> event \<Rightarrow> py_error + 'pos game" where
  "handle_event R e s ev =
     (case ev of
        QUIT \<Rightarrow> Inr (s\<lparr>running := False\<rparr>)
      | MOUSEBUTTONDOWN event_pos button \<Rightarrow>
          if color_selection s then Inr (choose_color R e s event_pos)
          else if \<not> game_over s \<and> \<not> ai_thinking s then Inr (mouse_down R e s event_pos button)
          else Inr s
      | MOUSEBUTTONUP event_pos button \<Rightarrow>
          if color_selection s then Inr s
          else if \<not> game_over s \<and> \<not> ai_thinking s then Inr (mouse_up R e s button)
          else Inr s
      | MOUSEMOTION event_pos \<Rightarrow>
          if color_selection s then Inr s
          else if str_truthy (selected_piece s) then Inr (s\<lparr>selected_piece_pos := Some event_pos\<rparr>)
          else Inr s
      | KEYDOWN k \<Rightarrow>
          if color_selection s then Inr s
          else key_down R e s k
      | OTHER \<Rightarrow> Inr s)"

text \<open>The engine's turn in the frame, after the events.\<close>

definition ai_step :: "'pos rules \<Rightarrow> env \<Rightarrow> 'pos game \<Rightarrow> 'pos game" where
  "ai_step R e s =
     (if ai_thinking s \<and> \<not> game_over s
      then
        let s = (case get_ai_move e s of
                   None \<Rightarrow> s
                 | Some ai_move \<Rightarrow>
                     if move_bool ai_move \<and> ai_move \<in> set (legal_moves R (cur (board s)))
                     then apply_ai_move R s ai_move
                     else s)
        in s\<lparr>ai_thinking := False\<rparr>
      else s)"

text \<open>The rest of the frame (the drawing, which changes no field, left out).\<close>

definition frame_update :: "'pos rules \<Rightarrow> env \<Rightarrow> 'pos game \<Rightarrow> 'pos game" where
  "frame_update R e s =
     (if \<not> color_selection s then update_timer R (time_now e) (ai_step R e s) else s)"

text \<open>The events of one frame, each with the environment it is handled in; an exception
  ends the run.\<close>

fun run_events :: "'pos rules \<Rightarrow> 'pos game \<Rightarrow> (event \<times> env) list \<Rightarrow> py_error + 'pos game" where
  "run_events R s [] = Inr s"
| "run_events R s ((ev, e) # rest) =
     (case handle_event R e s ev of
        Inl err \<Rightarrow> Inl err
      | Inr s' \<Rightarrow> run_events R s' rest)"

definition run_frame ::
  "'pos rules \<Rightarrow> 'pos game \<Rightarrow> (event \<times> env) list \<times> env \<Rightarrow> py_error + 'pos game" where
  "run_frame R s fr =
     (case run_events R s (fst fr) of
        Inl err \<Rightarrow> Inl err
      | Inr s' \<Rightarrow> Inr (frame_update R (snd fr) s'))"

text \<open>\<open>while running:\<close> over the frames given: a finite prefix of the run.\<close>

fun run :: "'pos rules \<Rightarrow> 'pos game \<Rightarrow> ((event \<times> env) list \<times> env) list \<Rightarrow> py_error + 'pos game" where
  "run R s [] = Inr s"
| "run R s (fr # frs) =
     (if running s
      then case run_frame R s fr of
             Inl err \<Rightarrow> Inl err
           | Inr s' \<Rightarrow> run R s' frs
      else Inr s)"

text \<open>The states of the turn sequencer, read off the flags.\<close>

datatype seq_state = ColorSelection | HumanTurn | EngineTurn | GameOver

definition sequencer :: "'pos game \<Rightarrow> seq_state" where
  "sequencer s =
     (if color_selection s then ColorSelection
      else if game_over s then GameOver
      else if ai_thinking s then EngineTurn
      else HumanTurn)"

section \<open>A small rules table, to run the program on explicit inputs\<close>

text \<open>
  An implementation of the rules record for one small ending, enough to run the program
  on explicit inputs. A position is the placement of the pieces and the side to move, and
  a move carries the piece on its origin square to its destination, removing what stood
  there. The start \<open>T0\<close> has White (to move) with the king on h1 and a pawn on a3, Black
  with the king on g3, the queen on a2, a knight on g1 and a pawn on a4. The table holds
  the legal moves of White in each position of the lines below, and for Black the
  replies these lines use:
  \<^item> \<open>T0\<close>, Kxg1 (the only legal move): \<open>T1\<close>;
  \<^item> \<open>T1\<close>, Qa1 mate: \<open>T2\<close>; \<open>T1\<close>, Qe2: \<open>T3\<close>; \<open>T1\<close>, Qxa3: \<open>T6\<close>;
  \<^item> \<open>T3\<close>, Kh1 (the only legal move): \<open>T4\<close>;
  \<^item> \<open>T4\<close>, Qf2 stalemate: \<open>T5\<close>.
\<close>

record toy_pos =
  placement :: "(square \<times> piece) list"
  white_to_move :: bool

definition mk_piece :: "bool \<Rightarrow> piece_type \<Rightarrow> piece" where
  "mk_piece c k = \<lparr>piece_type = k, color = c\<rparr>"

definition toy_make_move :: "toy_pos \<Rightarrow> move \<Rightarrow> toy_pos" where
  "toy_make_move p m =
     (case map_of (placement p) (from_square m) of
        None \<Rightarrow> p\<lparr>white_to_move := \<not> white_to_move p\<rparr>
      | Some x \<Rightarrow>
          \<lparr>placement =
             (to_square m, x) #
             filter (\<lambda>e. fst e \<noteq> from_square m \<and> fst e \<noteq> to_square m) (placement p),
           white_to_move = \<not> white_to_move p\<rparr>)"

definition T0 :: toy_pos where
  "T0 = \<lparr>placement = [(7, mk_piece True KING), (16, mk_piece True PAWN), (22, mk_piece False KING),
                       (8, mk_piece False QUEEN), (6, mk_piece False KNIGHT), (24, mk_piece False PAWN)],
         white_to_move = True\<rparr>"

definition T1 :: toy_pos where
  "T1 = \<lparr>placement = [(6, mk_piece True KING), (16, mk_piece True PAWN), (22, mk_piece False KING),
                       (8, mk_piece False QUEEN), (24, mk_piece False PAWN)],
         white_to_move = False\<rparr>"

definition T2 :: toy_pos where
  "T2 = \<lparr>placement = [(0, mk_piece False QUEEN), (6, mk_piece True KING), (16, mk_piece True PAWN),
                       (22, mk_piece False KING), (24, mk_piece False PAWN)],
         white_to_move = True\<rparr>"

definition T3 :: toy_pos where
  "T3 = \<lparr>placement = [(12, mk_piece False QUEEN), (6, mk_piece True KING), (16, mk_piece True PAWN),
                       (22, mk_piece False KING), (24, mk_piece False PAWN)],
         white_to_move = True\<rparr>"

definition T4 :: toy_pos where
  "T4 = \<lparr>placement = [(7, mk_piece True KING), (12, mk_piece False QUEEN), (16, mk_piece True PAWN),
                       (22, mk_piece False KING), (24, mk_piece False PAWN)],
         white_to_move = False\<rparr>"

definition T5 :: toy_pos where
  "T5 = \<lparr>placement = [(13, mk_piece False QUEEN), (7, mk_piece True KING), (16, mk_piece True PAWN),
                       (22, mk_piece False KING), (24, mk_piece False PAWN)],
         white_to_move = True\<rparr>"

definition T6 :: toy_pos where
  "T6 = \<lparr>placement = [(16, mk_piece False QUEEN), (6, mk_piece True KING), (22, mk_piece False KING),
                       (24, mk_piece False PAWN)],
         white_to_move = True\<rparr>"

definition toy_legal_moves :: "toy_pos \<Rightarrow> move list" where
  "toy_legal_moves p =
     (if p = T0 then [Move 7 6]
      else if p = T1 then [Move 8 0, Move 8 12, Move 8 16]
      else if p = T3 then [Move 6 7]
      else if p = T4 then [Move 12 13]
      else [])"

definition toy_san :: "toy_pos \<Rightarrow> move \<Rightarrow> string" where
  "toy_san p m =
     (if p = T0 then ''Kxg1''
      else if p = T1 then
        (if to_square m = 0 then ''Qa1#'' else if to_square m = 12 then ''Qe2'' else ''Qxa3'')
      else if p = T3 then ''Kh1''
      else ''Qf2'')"

definition toy_rules :: "toy_pos rules" where
  "toy_rules =
     \<lparr>initial = T0,
      turn = white_to_move,
      piece_at = (\<lambda>p. map_of (placement p)),
      legal_moves = toy_legal_moves,
      san = toy_san,
      make_move = toy_make_move,
      is_game_over = (\<lambda>b. cur b = T2 \<or> cur b = T5),
      is_checkmate = (\<lambda>p. p = T2)\<rparr>"

text \<open>The environment of a step: the pointer, the engine's answer and the wall clock;
  an engine is installed.\<close>

definition env_at :: "int \<times> int \<Rightarrow> move option \<Rightarrow> real \<Rightarrow> env" where
  "env_at p r t =
     \<lparr>mouse_get_pos = p, engine_play = PlayResult r, time_now = t, stockfish_found = True\<rparr>"

text \<open>A press and a release of the left button with the pointer at a pixel.\<close>

definition press_at :: "int \<times> int \<Rightarrow> real \<Rightarrow> event \<times> env" where
  "press_at p t = (MOUSEBUTTONDOWN p 1, env_at p None t)"

definition release_at :: "int \<times> int \<Rightarrow> real \<Rightarrow> event \<times> env" where
  "release_at p t = (MOUSEBUTTONUP p 1, env_at p None t)"

section \<open>Invariants of the run\<close>

text \<open>The selection is empty when none of its four fields holds anything.\<close>

definition sel_nonempty :: "'pos game \<Rightarrow> bool" where
  "sel_nonempty s =
     (\<not> (selected_square s = None \<and> valid_moves s = [] \<and> selected_piece s = None \<and>
         selected_piece_pos s = None))"

text \<open>
  What every state of a run satisfies: the history is as long as the board's move stack;
  the game has started, and a colour is chosen, exactly when the colour selection is
  over; the popup is shown exactly when the game is over; in the colour selection the
  board is new and nothing is selected; and while something is selected the engine is
  not thinking and the side to move is the human's.
\<close>

definition game_inv :: "'pos rules \<Rightarrow> 'pos game \<Rightarrow> bool" where
  "game_inv R s =
     (length (move_history s) = length (stack (board s)) \<and>
      game_started s = (\<not> color_selection s) \<and>
      color_selection s = (player_color s = None) \<and>
      checkmate_popup s = game_over s \<and>
      (color_selection s \<longrightarrow> board s = new_board R \<and> \<not> sel_nonempty s \<and> \<not> ai_thinking s \<and> \<not> game_over s) \<and>
      (sel_nonempty s \<longrightarrow> \<not> ai_thinking s \<and> player_color s = Some (turn R (cur (board s)))))"

text \<open>The four assignments that end every release and the undo.\<close>

definition clear_selection :: "'pos game \<Rightarrow> 'pos game" where
  "clear_selection s = s\<lparr>selected_square := None, valid_moves := [], selected_piece := None,
                          selected_piece_pos := None\<rparr>"

text \<open>Explicit inputs: the first reading of the clock; the frame in which the human
  presses the White button; the state after it; and the state after the human, as White,
  has then pressed on the king on h1 and released it on g1 (Kxg1), before the engine is
  asked.\<close>

definition e0 :: env where "e0 = env_at (0, 0) None 0"

definition frame_white :: "(event \<times> env) list \<times> env" where
  "frame_white = ([(MOUSEBUTTONDOWN (300, 320) 1, e0)], env_at (0, 0) None 1)"

definition st_white :: "toy_pos game" where
  "st_white = projr (run toy_rules (init_game toy_rules e0) [frame_white])"

definition st_thinking :: "toy_pos game" where
  "st_thinking = projr (run_events toy_rules st_white [press_at (580, 580) 2, release_at (530, 580) 2])"

text \<open>
  More explicit inputs, all with the human as White: the frame in which the human plays
  Kxg1 (a press on h1, a release on g1) and the engine answers; the frame in which the
  human plays Kh1 and the engine answers; the frame of the undo key; and the game in which
  the engine answers Kxg1 with Qa1 mate, with the state it ends in.
\<close>

definition frame_Kxg1 :: "move option \<Rightarrow> real \<Rightarrow> (event \<times> env) list \<times> env" where
  "frame_Kxg1 reply t =
     ([press_at (580, 580) t, release_at (530, 580) t], env_at (530, 580) reply t)"

definition frame_Kh1 :: "move option \<Rightarrow> real \<Rightarrow> (event \<times> env) list \<times> env" where
  "frame_Kh1 reply t =
     ([press_at (530, 580) t, release_at (580, 580) t], env_at (580, 580) reply t)"

definition frame_undo :: "real \<Rightarrow> (event \<times> env) list \<times> env" where
  "frame_undo t = ([(KEYDOWN K_u, env_at (0, 0) None t)], env_at (0, 0) None t)"

definition game_mated :: "((event \<times> env) list \<times> env) list" where
  "game_mated = [frame_white, frame_Kxg1 (Some (Move 8 0)) 3]"

definition st_mated :: "toy_pos game" where
  "st_mated = projr (run toy_rules (init_game toy_rules e0) game_mated)"

text \<open>
  The tally of what a side has captured. The program files a captured piece under the
  piece's own colour, so the captures of White are the list \<open>captured_pieces['b']\<close> and
  the captures of Black the list \<open>captured_pieces['w']\<close>.
\<close>

definition capture_tally :: "bool \<Rightarrow> 'pos game \<Rightarrow> string list" where
  "capture_tally side s = (if side = WHITE then captured_b s else captured_w s)"

text \<open>
  The state after the colour choice and a press on the king on h1, before the release.
\<close>

definition st_selected :: "toy_pos game" where
  "st_selected = projr (run_events toy_rules st_white [press_at (580, 580) 2])"

text \<open>
  The game in which the human, as White, presses on the king and holds it while White's
  countdown runs out, and the game in which the engine mates, the human undoes, and the
  engine then stalemates (Kxg1 Qa1 mate, undo, Kxg1 Qe2, Kh1 Qf2), with their last states.
\<close>

definition game_flag :: "((event \<times> env) list \<times> env) list" where
  "game_flag = [frame_white, ([press_at (580, 580) 2], env_at (580, 580) None 700)]"

definition st_flag :: "toy_pos game" where
  "st_flag = projr (run toy_rules (init_game toy_rules e0) game_flag)"

definition game_stale :: "((event \<times> env) list \<times> env) list" where
  "game_stale =
     [frame_white, frame_Kxg1 (Some (Move 8 0)) 3, frame_undo 5,
      frame_Kxg1 (Some (Move 8 12)) 7, frame_Kh1 (Some (Move 12 13)) 9]"

definition st_stale :: "toy_pos game" where
  "st_stale = projr (run toy_rules (init_game toy_rules e0) game_stale)"

text \<open>
  The game Kxg1 Qe2 with its last state, and the state in the middle of the next frame,
  after the human has then played Kh1 and before the engine is asked.
\<close>

definition game_Qe2 :: "((event \<times> env) list \<times> env) list" where
  "game_Qe2 = [frame_white, frame_Kxg1 (Some (Move 8 12)) 3]"

definition st_Qe2 :: "toy_pos game" where
  "st_Qe2 = projr (run toy_rules (init_game toy_rules e0) game_Qe2)"

definition events_Kh1 :: "(event \<times> env) list" where
  "events_Kh1 = [press_at (530, 580) 4, release_at (580, 580) 4]"

definition st_engine_turn :: "toy_pos game" where
  "st_engine_turn = projr (run_events toy_rules st_Qe2 events_Kh1)"

text \<open>
  A selection is left standing in a finished game only by a flag fall: if something is
  selected and the game is over, a countdown is at or below zero.
\<close>

definition stranded_by_clock :: "'pos game \<Rightarrow> bool" where
  "stranded_by_clock s =
     (sel_nonempty s \<and> game_over s \<longrightarrow> white_time s \<le> 0 \<or> black_time s \<le> 0)"

section \<open>Coordinate mapping: squares and their rectangles\<close>

lemma board_consts: "SQUARE_SIZE = 75" "MARGIN = 50" "BOARD_SIZE = 600" "WINDOW_SIZE = 1000"
  by (simp_all add: SQUARE_SIZE_def MARGIN_def BOARD_SIZE_def WINDOW_SIZE_def)

lemma div_in_cell:
  fixes x c q :: int
  assumes "c + q * 75 \<le> x" and "x < c + q * 75 + 75"
  shows "(x - c) div 75 = q"
proof (rule int_div_pos_eq [where r = "x - c - q * 75"])
  show "x - c = 75 * q + (x - c - q * 75)" by simp
  show "0 \<le> x - c - q * 75" using assms by simp
  show "x - c - q * 75 < 75" using assms by simp
qed

lemma cell_of_pixel:
  fixes x :: int
  assumes "50 \<le> x" and "x < 650"
  shows "0 \<le> (x - 50) div 75" and "(x - 50) div 75 < 8"
    and "50 + (x - 50) div 75 * 75 \<le> x" and "x < 50 + (x - 50) div 75 * 75 + 75"
proof -
  have e: "(x - 50) div 75 * 75 + (x - 50) mod 75 = x - 50" by (rule div_mult_mod_eq)
  have m: "0 \<le> (x - 50) mod 75" "(x - 50) mod 75 < 75" by simp_all
  show "0 \<le> (x - 50) div 75" using assms by (simp add: pos_imp_zdiv_nonneg_iff)
  show "(x - 50) div 75 < 8" using e m assms by linarith
  show "50 + (x - 50) div 75 * 75 \<le> x" using e m by linarith
  show "x < 50 + (x - 50) div 75 * 75 + 75" using e m by linarith
qed

lemma pixel_to_square_left_inverse:
  assumes "0 \<le> sq" "sq < 64" "in_square_rect (square_to_pixel pc sq) (x, y)"
  shows "pixel_to_square pc (x, y) = Some sq"
proof -
  let ?f = "sq mod 8" and ?r = "sq div 8"
  have f: "0 \<le> ?f" "?f < 8" by simp_all
  have r: "0 \<le> ?r" "?r < 8" using assms by simp_all
  show ?thesis
  proof (cases "truthy pc")
    case True
    from assms(3) True have x: "50 + ?f * 75 \<le> x" "x < 50 + ?f * 75 + 75"
      and y: "50 + (7 - ?r) * 75 \<le> y" "y < 50 + (7 - ?r) * 75 + 75"
      by (simp_all add: in_square_rect_def square_to_pixel_def square_rank_def
            square_file_def board_consts Let_def)
    have fx: "(x - 50) div 75 = ?f" using x by (rule div_in_cell)
    have ry: "(y - 50) div 75 = 7 - ?r" using y by (rule div_in_cell)
    have b: "50 \<le> x" "x < 650" "50 \<le> y" "y < 650" using x y f r by auto
    show ?thesis using True b f r
      by (simp add: pixel_to_square_def board_consts fx ry chess_square_def)
  next
    case False
    from assms(3) False have x: "50 + ?f * 75 \<le> x" "x < 50 + ?f * 75 + 75"
      and y: "50 + ?r * 75 \<le> y" "y < 50 + ?r * 75 + 75"
      by (simp_all add: in_square_rect_def square_to_pixel_def square_rank_def
            square_file_def board_consts Let_def)
    have fx: "(x - 50) div 75 = ?f" using x by (rule div_in_cell)
    have ry: "(y - 50) div 75 = ?r" using y by (rule div_in_cell)
    have b: "50 \<le> x" "x < 650" "50 \<le> y" "y < 650" using x y f r by auto
    show ?thesis using False b f r
      by (simp add: pixel_to_square_def board_consts fx ry chess_square_def)
  qed
qed

lemma pixel_to_square_outside: "\<not> in_board_bounds pos \<Longrightarrow> pixel_to_square pc pos = None"
  by (cases pos) (simp add: pixel_to_square_def in_board_bounds_def)

lemma pixel_to_square_inside:
  assumes "in_board_bounds (x, y)"
  shows "\<exists>sq. 0 \<le> sq \<and> sq < 64 \<and> pixel_to_square pc (x, y) = Some sq \<and>
           in_square_rect (square_to_pixel pc sq) (x, y)"
proof -
  from assms have b: "50 \<le> x" "x < 650" "50 \<le> y" "y < 650"
    by (simp_all add: in_board_bounds_def board_consts)
  let ?f = "(x - 50) div 75" and ?r0 = "(y - 50) div 75"
  let ?r = "if truthy pc then 7 - ?r0 else ?r0"
  let ?sq = "chess_square ?f ?r"
  note fc = cell_of_pixel [OF b(1,2)] and rc = cell_of_pixel [OF b(3,4)]
  have r: "0 \<le> ?r" "?r < 8" using rc by auto
  have p: "pixel_to_square pc (x, y) = Some ?sq"
    using b fc r by (simp add: pixel_to_square_def board_consts Let_def)
  have sq: "0 \<le> ?sq" "?sq < 64" using fc(1,2) r by (auto simp: chess_square_def)
  have fr: "?sq mod 8 = ?f" "?sq div 8 = ?r" using fc(1,2) r by (auto simp: chess_square_def)
  have "in_square_rect (square_to_pixel pc ?sq) (x, y)"
    unfolding in_square_rect_def square_to_pixel_def square_rank_def square_file_def
      Let_def fr board_consts
    using fc rc by auto
  with p sq show ?thesis by blast
qed

lemma square_to_pixel_inj: "inj_on (square_to_pixel pc) {0..<64}"
proof (rule inj_onI)
  fix a b :: int
  assume a: "a \<in> {0..<64}" and b: "b \<in> {0..<64}"
    and e: "square_to_pixel pc a = square_to_pixel pc b"
  obtain x y where xy: "square_to_pixel pc a = (x, y)" by (cases "square_to_pixel pc a")
  have ra: "in_square_rect (square_to_pixel pc a) (x, y)"
    by (simp add: xy in_square_rect_def board_consts)
  have "pixel_to_square pc (x, y) = Some a"
    using a ra by (intro pixel_to_square_left_inverse) auto
  moreover have "pixel_to_square pc (x, y) = Some b"
    using b ra e by (intro pixel_to_square_left_inverse) auto
  ultimately show "a = b" by simp
qed

lemma square_to_pixel_white:
  "square_to_pixel (Some True) sq =
     (MARGIN + square_file sq * SQUARE_SIZE, MARGIN + (7 - square_rank sq) * SQUARE_SIZE)"
  by (simp add: square_to_pixel_def truthy_def)

lemma square_to_pixel_black:
  "square_to_pixel (Some False) sq =
     (MARGIN + square_file sq * SQUARE_SIZE, MARGIN + square_rank sq * SQUARE_SIZE)"
  by (simp add: square_to_pixel_def truthy_def)

text \<open>
  C4, the sentence as written, at the square a1 with the human playing Black: were the
  files mirrored, a1 would be drawn in the rightmost column, at
  \<open>x = MARGIN + 7 * SQUARE_SIZE\<close>. It is drawn in the leftmost column, at the same
  \<open>x\<close> as when the human plays White.
\<close>

theorem C4_files_not_mirrored:
  "fst (square_to_pixel (Some False) 0) = fst (square_to_pixel (Some True) 0) \<and>
   fst (square_to_pixel (Some False) 0) = MARGIN \<and>
   fst (square_to_pixel (Some False) 0) \<noteq> MARGIN + (7 - square_file 0) * SQUARE_SIZE"
  by (simp add: square_to_pixel_def truthy_def square_file_def square_rank_def board_consts)

text \<open>
  C4, amended. For each colour choice \<open>pc\<close>: every pixel of the rectangle of a square
  \<open>0 \<le> sq < 64\<close> maps back to that square; the 64 squares have distinct rectangles;
  every pixel within the board's bounds lies in the rectangle of the square it maps to,
  which is one of the 64; every pixel outside the bounds maps to no square. The two
  orientations differ in the ranks only: with the human as White the rank is flipped
  (rank 1 in the bottom row), with the human as Black it is not (rank 8 in the bottom
  row), each the mirror image of the other, so the human's home rank is the bottom row
  either way; the files run left to right in both.
\<close>

theorem C4_coordinate_mapping:
  "(\<forall>sq x y. 0 \<le> sq \<and> sq < 64 \<and> in_square_rect (square_to_pixel pc sq) (x, y)
       \<longrightarrow> pixel_to_square pc (x, y) = Some sq) \<and>
   inj_on (square_to_pixel pc) {0..<64} \<and>
   (\<forall>x y. in_board_bounds (x, y) \<longrightarrow>
       (\<exists>sq. 0 \<le> sq \<and> sq < 64 \<and> pixel_to_square pc (x, y) = Some sq \<and>
             in_square_rect (square_to_pixel pc sq) (x, y))) \<and>
   (\<forall>pos. \<not> in_board_bounds pos \<longrightarrow> pixel_to_square pc pos = None) \<and>
   (\<forall>sq. fst (square_to_pixel (Some False) sq) = fst (square_to_pixel (Some True) sq) \<and>
         fst (square_to_pixel (Some True) sq) = MARGIN + square_file sq * SQUARE_SIZE \<and>
         snd (square_to_pixel (Some True) sq) = MARGIN + (7 - square_rank sq) * SQUARE_SIZE \<and>
         snd (square_to_pixel (Some False) sq) = MARGIN + square_rank sq * SQUARE_SIZE) \<and>
   (\<forall>sq. square_rank sq = 0 \<longrightarrow>
         snd (square_to_pixel (Some True) sq) = MARGIN + BOARD_SIZE - SQUARE_SIZE) \<and>
   (\<forall>sq. square_rank sq = 7 \<longrightarrow>
         snd (square_to_pixel (Some False) sq) = MARGIN + BOARD_SIZE - SQUARE_SIZE)"
proof (intro conjI allI impI)
  fix sq x y
  assume "0 \<le> sq \<and> sq < 64 \<and> in_square_rect (square_to_pixel pc sq) (x, y)"
  then show "pixel_to_square pc (x, y) = Some sq"
    by (simp add: pixel_to_square_left_inverse)
next
  show "inj_on (square_to_pixel pc) {0..<64}" by (rule square_to_pixel_inj)
next
  fix x y
  assume "in_board_bounds (x, y)"
  then show "\<exists>sq. 0 \<le> sq \<and> sq < 64 \<and> pixel_to_square pc (x, y) = Some sq \<and>
                 in_square_rect (square_to_pixel pc sq) (x, y)"
    by (rule pixel_to_square_inside)
next
  fix pos :: "int \<times> int"
  assume "\<not> in_board_bounds pos"
  then show "pixel_to_square pc pos = None" by (rule pixel_to_square_outside)
next
  fix sq :: int
  assume "square_rank sq = 0"
  then show "snd (square_to_pixel (Some True) sq) = MARGIN + BOARD_SIZE - SQUARE_SIZE"
    by (simp add: square_to_pixel_white board_consts)
next
  fix sq :: int
  assume "square_rank sq = 7"
  then show "snd (square_to_pixel (Some False) sq) = MARGIN + BOARD_SIZE - SQUARE_SIZE"
    by (simp add: square_to_pixel_black board_consts)
qed (simp_all add: square_to_pixel_white square_to_pixel_black)

text \<open>
  The mapping at explicit inputs, the human playing Black: the pixel \<open>(700, 100)\<close> is
  off the board; the pixel \<open>(130, 60)\<close> is on it and lies in the rectangle of b1
  (square 1), in the top row; h8 (square 63, rank 7) is in the bottom row.
\<close>

theorem C4_coordinate_mapping_witness:
  "in_square_rect (square_to_pixel (Some False) 1) (130, 60) \<and>
   pixel_to_square (Some False) (130, 60) = Some 1 \<and>
   in_board_bounds (130, 60) \<and>
   \<not> in_board_bounds (700, 100) \<and>
   pixel_to_square (Some False) (700, 100) = None \<and>
   square_rank 63 = 7 \<and>
   snd (square_to_pixel (Some False) 63) = MARGIN + BOARD_SIZE - SQUARE_SIZE \<and>
   square_rank 5 = 0 \<and>
   snd (square_to_pixel (Some True) 5) = MARGIN + BOARD_SIZE - SQUARE_SIZE"
proof -
  note t = C4_coordinate_mapping [of "Some False"]
  have r: "in_square_rect (square_to_pixel (Some False) 1) (130, 60)"
    by (simp add: in_square_rect_def square_to_pixel_black square_file_def square_rank_def
          board_consts)
  have "(0::int) \<le> 1 \<and> (1::int) < 64 \<and> in_square_rect (square_to_pixel (Some False) 1) (130, 60)"
    using r by simp
  with t have p: "pixel_to_square (Some False) (130, 60) = Some 1" by blast
  have o: "\<not> in_board_bounds (700, 100)" by (simp add: in_board_bounds_def board_consts)
  with t have n: "pixel_to_square (Some False) (700, 100) = None" by blast
  have i: "in_board_bounds (130, 60)" by (simp add: in_board_bounds_def board_consts)
  have k7: "square_rank 63 = 7" and k0: "square_rank 5 = 0" by (simp_all add: square_rank_def)
  from t k7 have b7: "snd (square_to_pixel (Some False) 63) = MARGIN + BOARD_SIZE - SQUARE_SIZE"
    by blast
  from t k0 have b0: "snd (square_to_pixel (Some True) 5) = MARGIN + BOARD_SIZE - SQUARE_SIZE"
    by blast
  from r p i o n k7 b7 k0 b0 show ?thesis by blast
qed

section \<open>The lines of the small rules table\<close>

lemma toy_lines:
  "toy_make_move T0 (Move 7 6) = T1"
  "toy_make_move T1 (Move 8 0) = T2"
  "toy_make_move T1 (Move 8 12) = T3"
  "toy_make_move T1 (Move 8 16) = T6"
  "toy_make_move T3 (Move 6 7) = T4"
  "toy_make_move T4 (Move 12 13) = T5"
  by code_simp+

section \<open>The steps of the run, case by case, and what they keep\<close>

lemma init_inv: "game_inv R (init_game R e)"
  by (simp add: game_inv_def init_game_def new_board_def sel_nonempty_def)

lemma reset_inv: "game_inv R ((reset_game R e s)\<lparr>color_selection := True\<rparr>)"
  by (simp add: game_inv_def reset_game_def new_board_def sel_nonempty_def)

lemma record_capture_frame:
  "board (record_capture R s t) = board s"
  "move_history (record_capture R s t) = move_history s"
  "game_started (record_capture R s t) = game_started s"
  "color_selection (record_capture R s t) = color_selection s"
  "player_color (record_capture R s t) = player_color s"
  "checkmate_popup (record_capture R s t) = checkmate_popup s"
  "game_over (record_capture R s t) = game_over s"
  "ai_thinking (record_capture R s t) = ai_thinking s"
  "selected_square (record_capture R s t) = selected_square s"
  "valid_moves (record_capture R s t) = valid_moves s"
  "selected_piece (record_capture R s t) = selected_piece s"
  "selected_piece_pos (record_capture R s t) = selected_piece_pos s"
  "winner (record_capture R s t) = winner s"
  "last_move (record_capture R s t) = last_move s"
  "white_time (record_capture R s t) = white_time s"
  "black_time (record_capture R s t) = black_time s"
  "last_time (record_capture R s t) = last_time s"
  "engine (record_capture R s t) = engine s"
  "running (record_capture R s t) = running s"
  by (simp_all add: record_capture_def split: option.splits)

lemma apply_human_move_frame:
  "board (apply_human_move R s m) = push R (board s) m"
  "move_history (apply_human_move R s m) = move_history s @ [san R (cur (board s)) m]"
  "last_move (apply_human_move R s m) = Some m"
  "game_started (apply_human_move R s m) = game_started s"
  "color_selection (apply_human_move R s m) = color_selection s"
  "player_color (apply_human_move R s m) = player_color s"
  "selected_square (apply_human_move R s m) = selected_square s"
  "valid_moves (apply_human_move R s m) = valid_moves s"
  "selected_piece (apply_human_move R s m) = selected_piece s"
  "selected_piece_pos (apply_human_move R s m) = selected_piece_pos s"
  "game_over (apply_human_move R s m) = (is_game_over R (push R (board s) m) \<or> game_over s)"
  "checkmate_popup (apply_human_move R s m) = (is_game_over R (push R (board s) m) \<or> checkmate_popup s)"
  "ai_thinking (apply_human_move R s m) = (\<not> is_game_over R (push R (board s) m) \<or> ai_thinking s)"
  "captured_w (apply_human_move R s m) = captured_w (record_capture R s (to_square m))"
  "captured_b (apply_human_move R s m) = captured_b (record_capture R s (to_square m))"
  "white_time (apply_human_move R s m) = white_time s"
  "black_time (apply_human_move R s m) = black_time s"
  "last_time (apply_human_move R s m) = last_time s"
  "engine (apply_human_move R s m) = engine s"
  "running (apply_human_move R s m) = running s"
  by (simp_all add: apply_human_move_def Let_def record_capture_frame)

lemma apply_ai_move_frame:
  "board (apply_ai_move R s m) = push R (board s) m"
  "move_history (apply_ai_move R s m) = move_history s @ [san R (cur (board s)) m]"
  "last_move (apply_ai_move R s m) = Some m"
  "game_started (apply_ai_move R s m) = game_started s"
  "color_selection (apply_ai_move R s m) = color_selection s"
  "player_color (apply_ai_move R s m) = player_color s"
  "selected_square (apply_ai_move R s m) = selected_square s"
  "valid_moves (apply_ai_move R s m) = valid_moves s"
  "selected_piece (apply_ai_move R s m) = selected_piece s"
  "selected_piece_pos (apply_ai_move R s m) = selected_piece_pos s"
  "game_over (apply_ai_move R s m) = (is_game_over R (push R (board s) m) \<or> game_over s)"
  "checkmate_popup (apply_ai_move R s m) = (is_game_over R (push R (board s) m) \<or> checkmate_popup s)"
  "ai_thinking (apply_ai_move R s m) = ai_thinking s"
  "captured_w (apply_ai_move R s m) = captured_w (record_capture R s (to_square m))"
  "captured_b (apply_ai_move R s m) = captured_b (record_capture R s (to_square m))"
  "white_time (apply_ai_move R s m) = white_time s"
  "black_time (apply_ai_move R s m) = black_time s"
  "last_time (apply_ai_move R s m) = last_time s"
  "engine (apply_ai_move R s m) = engine s"
  "running (apply_ai_move R s m) = running s"
  by (simp_all add: apply_ai_move_def Let_def record_capture_frame)

lemma sel_nonempty_cong:
  "selected_square s' = selected_square s \<Longrightarrow> valid_moves s' = valid_moves s \<Longrightarrow>
   selected_piece s' = selected_piece s \<Longrightarrow> selected_piece_pos s' = selected_piece_pos s \<Longrightarrow>
   sel_nonempty s' = sel_nonempty s"
  by (simp add: sel_nonempty_def)

lemma sel_nonempty_apply [simp]:
  "sel_nonempty (apply_ai_move R s m) = sel_nonempty s"
  "sel_nonempty (apply_human_move R s m) = sel_nonempty s"
  by (simp_all add: sel_nonempty_def apply_ai_move_frame apply_human_move_frame)


lemma push_simps [simp]:
  "cur (push R b m) = make_move R (cur b) m"
  "stack (push R b m) = (cur b, m) # stack b"
  by (simp_all add: push_def)

lemma pop_push [simp]: "pop (push R b m) = Inr b"
  by (simp add: pop_def push_def)

lemma get_ai_move_cong:
  "engine s' = engine s \<Longrightarrow> get_ai_move e s' = get_ai_move e s"
  by (simp add: get_ai_move_def)

lemma mouse_down_cases:
  "mouse_down R e s p b = s \<or>
   mouse_down R e s p b = (reset_game R e s)\<lparr>color_selection := True\<rparr> \<or>
   (\<exists>sq x. b = 1 \<and> \<not> checkmate_popup s \<and>
      pixel_to_square (player_color s) (mouse_get_pos e) = Some sq \<and>
      piece_at R (cur (board s)) sq = Some x \<and>
      selectable R s x \<and>
      mouse_down R e s p b =
        s\<lparr>selected_square := Some sq,
          valid_moves := filter (\<lambda>m. from_square m = sq) (legal_moves R (cur (board s))),
          selected_piece := Some ((if color x = WHITE then ''w'' else ''b'') @ symbol_lower x),
          selected_piece_pos := Some (mouse_get_pos e)\<rparr>)"
proof (cases "b = 1 \<and> \<not> checkmate_popup s")
  case False
  then show ?thesis by (auto simp: mouse_down_def)
next
  case True
  show ?thesis
  proof (cases "pixel_to_square (player_color s) (mouse_get_pos e)")
    case None
    with True show ?thesis by (simp add: mouse_down_def)
  next
    case (Some sq)
    show ?thesis
    proof (cases "piece_at R (cur (board s)) sq")
      case None
      with True Some show ?thesis by (simp add: mouse_down_def)
    next
      case (Some x)
      note px = this
      show ?thesis
      proof (cases "selectable R s x")
        case False
        with True \<open>pixel_to_square (player_color s) (mouse_get_pos e) = Some sq\<close> px
        show ?thesis by (simp add: mouse_down_def)
      next
        case c: True
        have "mouse_down R e s p b =
          s\<lparr>selected_square := Some sq,
            valid_moves := filter (\<lambda>m. from_square m = sq) (legal_moves R (cur (board s))),
            selected_piece := Some ((if color x = WHITE then ''w'' else ''b'') @ symbol_lower x),
            selected_piece_pos := Some (mouse_get_pos e)\<rparr>"
          using True \<open>pixel_to_square (player_color s) (mouse_get_pos e) = Some sq\<close> px c
          by (simp add: mouse_down_def)
        with True \<open>pixel_to_square (player_color s) (mouse_get_pos e) = Some sq\<close> px c
        show ?thesis by blast
      qed
    qed
  qed
qed

lemma mouse_up_cases:
  "mouse_up R e s b = s \<or>
   mouse_up R e s b = clear_selection s \<or>
   (\<exists>sel t. b = 1 \<and> selected_square s = Some sel \<and>
      pixel_to_square (player_color s) (mouse_get_pos e) = Some t \<and>
      Move sel t \<in> set (valid_moves s) \<and>
      mouse_up R e s b = clear_selection (apply_human_move R s (Move sel t)))"
proof (cases "selected_square s")
  case None
  then show ?thesis by (simp add: mouse_up_def)
next
  case (Some sel)
  show ?thesis
  proof (cases "b = 1")
    case False
    with Some show ?thesis by (simp add: mouse_up_def)
  next
    case True
    show ?thesis
    proof (cases "pixel_to_square (player_color s) (mouse_get_pos e)")
      case None
      with Some True show ?thesis by (simp add: mouse_up_def clear_selection_def)
    next
      case t: (Some t)
      show ?thesis
      proof (cases "Move sel t \<in> set (valid_moves s)")
        case False
        with Some True t show ?thesis by (simp add: mouse_up_def clear_selection_def)
      next
        case m: True
        have "mouse_up R e s b = clear_selection (apply_human_move R s (Move sel t))"
          using Some True t m by (simp add: mouse_up_def clear_selection_def)
        with Some True t m show ?thesis by blast
      qed
    qed
  qed
qed

lemma ai_step_cases:
  "ai_step R e s = s \<or>
   (ai_thinking s \<and> \<not> game_over s \<and> ai_step R e s = s\<lparr>ai_thinking := False\<rparr>) \<or>
   (\<exists>m. ai_thinking s \<and> \<not> game_over s \<and> get_ai_move e s = Some m \<and> move_bool m \<and>
        m \<in> set (legal_moves R (cur (board s))) \<and>
        ai_step R e s = (apply_ai_move R s m)\<lparr>ai_thinking := False\<rparr>)"
proof (cases "ai_thinking s \<and> \<not> game_over s")
  case False
  then show ?thesis by (auto simp: ai_step_def)
next
  case True
  show ?thesis
  proof (cases "get_ai_move e s")
    case None
    with True show ?thesis by (simp add: ai_step_def)
  next
    case (Some m)
    show ?thesis
    proof (cases "move_bool m \<and> m \<in> set (legal_moves R (cur (board s)))")
      case False
      with True Some show ?thesis by (auto simp: ai_step_def)
    next
      case l: True
      have "ai_step R e s = (apply_ai_move R s m)\<lparr>ai_thinking := False\<rparr>"
        using True Some l by (simp add: ai_step_def)
      with True Some l show ?thesis by blast
    qed
  qed
qed


lemma choose_color_cases:
  "choose_color R e s p = s \<or>
   choose_color R e s p =
     s\<lparr>player_color := Some True, color_selection := False, game_started := True\<rparr> \<or>
   choose_color R e s p =
     s\<lparr>player_color := Some False, color_selection := False, game_started := True\<rparr> \<or>
   (\<exists>m. get_ai_move e s = Some m \<and> move_bool m \<and> m \<in> set (legal_moves R (cur (board s))) \<and>
        choose_color R e s p =
          apply_first_move R
            (s\<lparr>player_color := Some False, color_selection := False, game_started := True\<rparr>) m)"
proof (cases "collidepoint white_rect p")
  case True
  then show ?thesis by (simp add: choose_color_def)
next
  case w: False
  show ?thesis
  proof (cases "collidepoint black_rect p")
    case False
    with w show ?thesis by (simp add: choose_color_def)
  next
    case True
    let ?s1 = "s\<lparr>player_color := Some False, color_selection := False, game_started := True\<rparr>"
    have g: "get_ai_move e ?s1 = get_ai_move e s" by (simp add: get_ai_move_def)
    show ?thesis
    proof (cases "get_ai_move e s")
      case None
      with w True g show ?thesis by (simp add: choose_color_def)
    next
      case (Some m)
      show ?thesis
      proof (cases "move_bool m \<and> m \<in> set (legal_moves R (cur (board s)))")
        case False
        with w True g Some show ?thesis by (auto simp: choose_color_def)
      next
        case l: True
        have "choose_color R e s p = apply_first_move R ?s1 m"
          using w True g Some l by (simp add: choose_color_def)
        with Some l show ?thesis by blast
      qed
    qed
  qed
qed

lemma apply_first_move_frame:
  "board (apply_first_move R s m) = push R (board s) m"
  "move_history (apply_first_move R s m) = move_history s @ [san R (cur (board s)) m]"
  "last_move (apply_first_move R s m) = Some m"
  "game_started (apply_first_move R s m) = game_started s"
  "color_selection (apply_first_move R s m) = color_selection s"
  "player_color (apply_first_move R s m) = player_color s"
  "selected_square (apply_first_move R s m) = selected_square s"
  "valid_moves (apply_first_move R s m) = valid_moves s"
  "selected_piece (apply_first_move R s m) = selected_piece s"
  "selected_piece_pos (apply_first_move R s m) = selected_piece_pos s"
  "game_over (apply_first_move R s m) = game_over s"
  "checkmate_popup (apply_first_move R s m) = checkmate_popup s"
  "ai_thinking (apply_first_move R s m) = ai_thinking s"
  "captured_w (apply_first_move R s m) = captured_w s"
  "captured_b (apply_first_move R s m) = captured_b s"
  "white_time (apply_first_move R s m) = white_time s"
  "black_time (apply_first_move R s m) = black_time s"
  "last_time (apply_first_move R s m) = last_time s"
  "winner (apply_first_move R s m) = winner s"
  "engine (apply_first_move R s m) = engine s"
  "running (apply_first_move R s m) = running s"
  by (simp_all add: apply_first_move_def Let_def)

lemma choose_color_inv:
  assumes "game_inv R s" "color_selection s"
  shows "game_inv R (choose_color R e s p)"
proof -
  let ?s1 = "\<lambda>c. s\<lparr>player_color := Some c, color_selection := False, game_started := True\<rparr>"
  have one: "game_inv R (?s1 c)" for c
    using assms by (simp add: game_inv_def sel_nonempty_def)
  have two: "game_inv R (apply_first_move R (?s1 False) m)" for m
    using assms by (simp add: game_inv_def sel_nonempty_def apply_first_move_frame)
  from choose_color_cases [of R e s p] assms(1) one two show ?thesis by auto
qed


lemma mouse_down_inv:
  assumes "game_inv R s" "\<not> color_selection s" "\<not> ai_thinking s"
  shows "game_inv R (mouse_down R e s p b)"
proof -
  consider (same) "mouse_down R e s p b = s"
    | (reset) "mouse_down R e s p b = (reset_game R e s)\<lparr>color_selection := True\<rparr>"
    | (sel) sq x where "selectable R s x"
        "mouse_down R e s p b =
          s\<lparr>selected_square := Some sq,
            valid_moves := filter (\<lambda>m. from_square m = sq) (legal_moves R (cur (board s))),
            selected_piece := Some ((if color x = WHITE then ''w'' else ''b'') @ symbol_lower x),
            selected_piece_pos := Some (mouse_get_pos e)\<rparr>"
    using mouse_down_cases [of R e s p b] by blast
  then show ?thesis
  proof cases
    case same
    with assms show ?thesis by simp
  next
    case reset
    then show ?thesis by (simp add: reset_inv)
  next
    case sel
    from assms(1,2) obtain c where c: "player_color s = Some c"
      by (auto simp: game_inv_def)
    with sel(1) have "c = turn R (cur (board s))"
      by (auto simp: selectable_def truthy_def WHITE_def BLACK_def)
    with c assms show ?thesis unfolding sel(2) by (simp add: game_inv_def sel_nonempty_def)
  qed
qed

lemma clear_selection_inv:
  assumes "length (move_history t) = length (stack (board t))" "game_started t"
    "\<not> color_selection t" "player_color t \<noteq> None" "checkmate_popup t = game_over t"
  shows "game_inv R (clear_selection t)"
  using assms by (simp add: game_inv_def sel_nonempty_def clear_selection_def)

lemma mouse_up_inv:
  assumes "game_inv R s" "\<not> color_selection s"
  shows "game_inv R (mouse_up R e s b)"
proof -
  from assms have b: "length (move_history s) = length (stack (board s))" "game_started s"
      "player_color s \<noteq> None" "checkmate_popup s = game_over s"
    by (simp_all add: game_inv_def)
  consider (same) "mouse_up R e s b = s"
    | (clear) "mouse_up R e s b = clear_selection s"
    | (move) m where "mouse_up R e s b = clear_selection (apply_human_move R s m)"
    using mouse_up_cases [of R e s b] by blast
  then show ?thesis
  proof cases
    case same
    with assms show ?thesis by simp
  next
    case clear
    with assms(2) b show ?thesis by (simp add: clear_selection_inv)
  next
    case move
    show ?thesis unfolding move
      using assms(2) b by (intro clear_selection_inv) (simp_all add: apply_human_move_frame)
  qed
qed


lemma ai_step_inv:
  assumes "game_inv R s" "\<not> color_selection s"
  shows "game_inv R (ai_step R e s)"
proof -
  consider (same) "ai_step R e s = s"
    | (none) "ai_thinking s" "ai_step R e s = s\<lparr>ai_thinking := False\<rparr>"
    | (move) m where "ai_thinking s" "ai_step R e s = (apply_ai_move R s m)\<lparr>ai_thinking := False\<rparr>"
    using ai_step_cases [of R e s] by blast
  then show ?thesis
  proof cases
    case same
    with assms show ?thesis by simp
  next
    case none
    with assms show ?thesis by (simp add: game_inv_def sel_nonempty_def)
  next
    case move
    from move(1) assms have ns: "\<not> sel_nonempty s" by (auto simp: game_inv_def)
    from assms have b: "length (move_history s) = length (stack (board s))" "game_started s"
      "player_color s \<noteq> None" "checkmate_popup s = game_over s"
      by (simp_all add: game_inv_def)
    have "sel_nonempty ((apply_ai_move R s m)\<lparr>ai_thinking := False\<rparr>) = sel_nonempty s"
      by (simp add: sel_nonempty_def apply_ai_move_frame)
    with ns b assms(2) show ?thesis unfolding move(2)
      by (simp add: game_inv_def apply_ai_move_frame)
  qed
qed

lemma update_timer_frame:
  "board (update_timer R t s) = board s"
  "move_history (update_timer R t s) = move_history s"
  "last_move (update_timer R t s) = last_move s"
  "game_started (update_timer R t s) = game_started s"
  "color_selection (update_timer R t s) = color_selection s"
  "player_color (update_timer R t s) = player_color s"
  "selected_square (update_timer R t s) = selected_square s"
  "valid_moves (update_timer R t s) = valid_moves s"
  "selected_piece (update_timer R t s) = selected_piece s"
  "selected_piece_pos (update_timer R t s) = selected_piece_pos s"
  "ai_thinking (update_timer R t s) = ai_thinking s"
  "captured_w (update_timer R t s) = captured_w s"
  "captured_b (update_timer R t s) = captured_b s"
  "engine (update_timer R t s) = engine s"
  "running (update_timer R t s) = running s"
  by (simp_all add: update_timer_def Let_def)

lemma update_timer_popup:
  "checkmate_popup s = game_over s \<Longrightarrow>
   checkmate_popup (update_timer R t s) = game_over (update_timer R t s)"
  by (simp add: update_timer_def Let_def)

lemma update_timer_over: "game_over s \<Longrightarrow> game_over (update_timer R t s)"
  by (simp add: update_timer_def Let_def)

lemma update_timer_inv:
  assumes "game_inv R s"
  shows "game_inv R (update_timer R t s)"
proof -
  have "sel_nonempty (update_timer R t s) = sel_nonempty s"
    by (simp add: sel_nonempty_def update_timer_frame)
  moreover have "color_selection s \<Longrightarrow> update_timer R t s = s"
    using assms by (simp add: update_timer_def game_inv_def)
  ultimately show ?thesis
    using assms update_timer_popup [of s R t]
    by (simp add: game_inv_def update_timer_frame)
qed

lemma frame_update_inv: "game_inv R s \<Longrightarrow> game_inv R (frame_update R e s)"
  by (simp add: frame_update_def update_timer_inv ai_step_inv)

lemma undo_ok:
  assumes "game_inv R s" "2 \<le> length (move_history s)"
  shows "\<exists>s'. undo s = Inr s' \<and> game_inv R s'"
proof -
  from assms have nc: "\<not> color_selection s"
    by (auto simp: game_inv_def new_board_def)
  from assms obtain p1 m1 p2 m2 rest where st: "stack (board s) = (p1, m1) # (p2, m2) # rest"
    by (cases "stack (board s)"; cases "tl (stack (board s))") (auto simp: game_inv_def)
  from assms(2) obtain h x y where h: "move_history s = h @ [x, y]"
    by (cases "move_history s" rule: rev_cases; cases "butlast (move_history s)" rule: rev_cases)
       auto
  let ?s' = "s\<lparr>board := \<lparr>cur = p2, stack = rest\<rparr>, move_history := h, game_over := False,
               checkmate_popup := False, ai_thinking := False,
               selected_square := None, valid_moves := [],
               selected_piece := None, selected_piece_pos := None\<rparr>"
  have u: "undo s = Inr ?s'"
    using st h by (simp add: undo_def pop_def list_pop_def butlast_append)
  have "game_inv R ?s'"
    using assms(1) nc st h by (simp add: game_inv_def sel_nonempty_def)
  with u show ?thesis by blast
qed

lemma game_inv_cong:
  assumes "board s' = board s" "move_history s' = move_history s" "game_started s' = game_started s"
    "color_selection s' = color_selection s" "player_color s' = player_color s"
    "checkmate_popup s' = checkmate_popup s" "game_over s' = game_over s"
    "ai_thinking s' = ai_thinking s" "sel_nonempty s' = sel_nonempty s"
  shows "game_inv R s' = game_inv R s"
  unfolding game_inv_def assms ..

lemma key_down_inv:
  assumes "game_inv R s"
  shows "\<exists>s'. key_down R e s k = Inr s' \<and> game_inv R s'"
proof (cases k)
  case K_r
  have "key_down R e s K_r = Inr ((reset_game R e s)\<lparr>color_selection := True\<rparr>)"
    by (simp add: key_down_def)
  with K_r reset_inv [of R e s] show ?thesis by blast
next
  case K_u
  show ?thesis
  proof (cases "2 \<le> length (move_history s)")
    case True
    then have "key_down R e s K_u = undo s" by (simp add: key_down_def)
    with K_u undo_ok [OF assms True] show ?thesis by simp
  next
    case False
    then have "key_down R e s K_u = Inr s" by (simp add: key_down_def)
    with K_u assms show ?thesis by blast
  qed
next
  case K_other
  have "key_down R e s K_other = Inr s" by (simp add: key_down_def)
  with K_other assms show ?thesis by blast
qed

lemma handle_event_inv:
  assumes "game_inv R s"
  shows "\<exists>s'. handle_event R e s ev = Inr s' \<and> game_inv R s'"
proof (cases ev)
  case QUIT
  have "handle_event R e s QUIT = Inr (s\<lparr>running := False\<rparr>)" by (simp add: handle_event_def)
  moreover have "game_inv R (s\<lparr>running := False\<rparr>) = game_inv R s"
    by (rule game_inv_cong) (simp_all add: sel_nonempty_def)
  with assms have "game_inv R (s\<lparr>running := False\<rparr>)" by simp
  ultimately show ?thesis using QUIT by blast
next
  case (MOUSEBUTTONDOWN p b)
  consider (c) "color_selection s" | (d) "\<not> color_selection s" "\<not> game_over s \<and> \<not> ai_thinking s"
    | (n) "\<not> color_selection s" "\<not> (\<not> game_over s \<and> \<not> ai_thinking s)" by blast
  then show ?thesis
  proof cases
    case c
    then have "handle_event R e s ev = Inr (choose_color R e s p)"
      by (simp add: handle_event_def MOUSEBUTTONDOWN)
    with choose_color_inv [OF assms c] show ?thesis by blast
  next
    case d
    then have "handle_event R e s ev = Inr (mouse_down R e s p b)"
      by (simp add: handle_event_def MOUSEBUTTONDOWN)
    with mouse_down_inv [OF assms d(1)] d(2) show ?thesis by blast
  next
    case n
    then have "handle_event R e s ev = Inr s"
      by (auto simp: handle_event_def MOUSEBUTTONDOWN)
    with assms show ?thesis by blast
  qed
next
  case (MOUSEBUTTONUP p b)
  consider (d) "\<not> color_selection s" "\<not> game_over s \<and> \<not> ai_thinking s"
    | (n) "color_selection s \<or> \<not> (\<not> game_over s \<and> \<not> ai_thinking s)" by blast
  then show ?thesis
  proof cases
    case d
    then have "handle_event R e s ev = Inr (mouse_up R e s b)"
      by (simp add: handle_event_def MOUSEBUTTONUP)
    with mouse_up_inv [OF assms d(1)] show ?thesis by blast
  next
    case n
    then have "handle_event R e s ev = Inr s"
      by (auto simp: handle_event_def MOUSEBUTTONUP)
    with assms show ?thesis by blast
  qed
next
  case (MOUSEMOTION p)
  show ?thesis
  proof (cases "\<not> color_selection s \<and> str_truthy (selected_piece s)")
    case False
    then have "handle_event R e s ev = Inr s"
      by (auto simp: handle_event_def MOUSEMOTION)
    with assms show ?thesis by blast
  next
    case True
    then have "selected_piece s \<noteq> None" by (auto simp: str_truthy_def split: option.splits)
    then have "sel_nonempty s" "sel_nonempty (s\<lparr>selected_piece_pos := Some p\<rparr>)"
      by (simp_all add: sel_nonempty_def)
    then have "game_inv R (s\<lparr>selected_piece_pos := Some p\<rparr>) = game_inv R s"
      by (intro game_inv_cong) simp_all
    with assms have "game_inv R (s\<lparr>selected_piece_pos := Some p\<rparr>)" by simp
    moreover have "handle_event R e s ev = Inr (s\<lparr>selected_piece_pos := Some p\<rparr>)"
      using True by (simp add: handle_event_def MOUSEMOTION)
    ultimately show ?thesis by blast
  qed
next
  case (KEYDOWN k)
  show ?thesis
  proof (cases "color_selection s")
    case True
    then have "handle_event R e s ev = Inr s" by (simp add: handle_event_def KEYDOWN)
    with assms show ?thesis by blast
  next
    case False
    then have "handle_event R e s ev = key_down R e s k" by (simp add: handle_event_def KEYDOWN)
    with key_down_inv [OF assms, of e k] show ?thesis by simp
  qed
next
  case OTHER
  have "handle_event R e s OTHER = Inr s" by (simp add: handle_event_def)
  with OTHER assms show ?thesis by blast
qed

lemma run_events_inv:
  "game_inv R s \<Longrightarrow> \<exists>s'. run_events R s evs = Inr s' \<and> game_inv R s'"
proof (induction evs arbitrary: s)
  case Nil
  then show ?case by simp
next
  case (Cons a evs)
  obtain ev e where a: "a = (ev, e)" by (cases a)
  from handle_event_inv [OF Cons.prems, of e ev]
  obtain s1 where s1: "handle_event R e s ev = Inr s1" "game_inv R s1" by blast
  from Cons.IH [OF s1(2)] s1(1) a show ?case by simp
qed

lemma run_frame_inv:
  assumes "game_inv R s"
  shows "\<exists>s'. run_frame R s fr = Inr s' \<and> game_inv R s'"
proof -
  from run_events_inv [OF assms, of "fst fr"]
  obtain s1 where "run_events R s (fst fr) = Inr s1" "game_inv R s1" by blast
  then show ?thesis by (simp add: run_frame_def frame_update_inv)
qed

lemma run_inv:
  "game_inv R s \<Longrightarrow> \<exists>s'. run R s frs = Inr s' \<and> game_inv R s'"
proof (induction frs arbitrary: s)
  case Nil
  then show ?case by simp
next
  case (Cons fr frs)
  show ?case
  proof (cases "running s")
    case False
    with Cons.prems show ?thesis by simp
  next
    case True
    from run_frame_inv [OF Cons.prems, of fr]
    obtain s1 where s1: "run_frame R s fr = Inr s1" "game_inv R s1" by blast
    from Cons.IH [OF s1(2)] s1(1) True show ?thesis by simp
  qed
qed

section \<open>The claims\<close>

text \<open>
  One call of \<open>update_timer\<close>, for any state and any clock reading: what it does to the
  two countdowns, the game-over flag, the winner and the popup.
\<close>

lemma update_timer_clock:
  "(game_started s \<and> \<not> game_over s \<longrightarrow>
      (turn R (cur (board s)) = WHITE \<longrightarrow>
         white_time (update_timer R t s) = white_time s - (t - last_time s) \<and>
         black_time (update_timer R t s) = black_time s) \<and>
      (turn R (cur (board s)) = BLACK \<longrightarrow>
         black_time (update_timer R t s) = black_time s - (t - last_time s) \<and>
         white_time (update_timer R t s) = white_time s) \<and>
      (last_time s < t \<longrightarrow>
         (if turn R (cur (board s)) = WHITE
          then white_time (update_timer R t s) < white_time s
          else black_time (update_timer R t s) < black_time s)) \<and>
      last_time (update_timer R t s) = t \<and>
      game_over (update_timer R t s) =
        (white_time (update_timer R t s) \<le> 0 \<or> black_time (update_timer R t s) \<le> 0) \<and>
      (white_time (update_timer R t s) \<le> 0 \<longrightarrow>
         winner (update_timer R t s) = Some ''Black'' \<and> checkmate_popup (update_timer R t s)) \<and>
      (0 < white_time (update_timer R t s) \<and> black_time (update_timer R t s) \<le> 0 \<longrightarrow>
         winner (update_timer R t s) = Some ''White'' \<and> checkmate_popup (update_timer R t s)) \<and>
      (0 < white_time (update_timer R t s) \<and> 0 < black_time (update_timer R t s) \<longrightarrow>
         winner (update_timer R t s) = winner s \<and>
         checkmate_popup (update_timer R t s) = checkmate_popup s)) \<and>
   (\<not> game_started s \<or> game_over s \<longrightarrow> update_timer R t s = s)"
proof (intro conjI impI)
  assume "\<not> game_started s \<or> game_over s"
  then show "update_timer R t s = s" by (simp add: update_timer_def)
next
  assume a: "game_started s \<and> \<not> game_over s"
  show "last_time (update_timer R t s) = t"
    using a by (simp add: update_timer_def Let_def)
  show "game_over (update_timer R t s) =
        (white_time (update_timer R t s) \<le> 0 \<or> black_time (update_timer R t s) \<le> 0)"
    using a by (simp add: update_timer_def Let_def)
  {
    assume "turn R (cur (board s)) = WHITE"
    then show "white_time (update_timer R t s) = white_time s - (t - last_time s)"
      and "black_time (update_timer R t s) = black_time s"
      using a by (simp_all add: update_timer_def Let_def)
  }
  {
    assume "turn R (cur (board s)) = BLACK"
    then show "black_time (update_timer R t s) = black_time s - (t - last_time s)"
      and "white_time (update_timer R t s) = white_time s"
      using a by (simp_all add: update_timer_def Let_def WHITE_def BLACK_def)
  }
  {
    assume "last_time s < t"
    then show "if turn R (cur (board s)) = WHITE
          then white_time (update_timer R t s) < white_time s
          else black_time (update_timer R t s) < black_time s"
      using a by (simp add: update_timer_def Let_def)
  }
  {
    assume "white_time (update_timer R t s) \<le> 0"
    then show "winner (update_timer R t s) = Some ''Black''" and "checkmate_popup (update_timer R t s)"
      using a by (simp_all add: update_timer_def Let_def split: if_splits)
  }
  {
    assume "0 < white_time (update_timer R t s) \<and> black_time (update_timer R t s) \<le> 0"
    then show "winner (update_timer R t s) = Some ''White''" and "checkmate_popup (update_timer R t s)"
      using a by (simp_all add: update_timer_def Let_def split: if_splits)
  }
  {
    assume "0 < white_time (update_timer R t s) \<and> 0 < black_time (update_timer R t s)"
    then show "winner (update_timer R t s) = winner s"
      and "checkmate_popup (update_timer R t s) = checkmate_popup s"
      using a by (simp_all add: update_timer_def Let_def split: if_splits)
  }
qed

lemma st_white_facts:
  "game_started st_white" "\<not> game_over st_white" "turn toy_rules (cur (board st_white)) = WHITE"
  "white_time st_white = 599" "black_time st_white = 600" "last_time st_white = 1"
  by code_simp+

lemma st_thinking_facts:
  "game_started st_thinking" "\<not> game_over st_thinking" "ai_thinking st_thinking"
  "\<not> color_selection st_thinking" "engine st_thinking"
  "turn toy_rules (cur (board st_thinking)) = BLACK"
  "white_time st_thinking = 599" "black_time st_thinking = 600" "last_time st_thinking = 1"
  by code_simp+

text \<open>
  C6. In the engine's turn (the engine thinking, the game not over), if no engine is held,
  or the call raises, or it returns no move, or it returns a move that is null or not
  among the legal moves, then the only field that changes is \<open>ai_thinking\<close>, now
  false: the board, the history, the tallies and the last move are as before, the
  sequencer is back in the human's turn, and the frame returns normally.
\<close>

theorem C6_engine_no_move:
  assumes "\<not> color_selection s" and "ai_thinking s" and "\<not> game_over s"
    and "\<not> engine s \<or> engine_play e = PlayRaises \<or> engine_play e = PlayResult None \<or>
         (\<exists>m. engine_play e = PlayResult (Some m) \<and>
              \<not> (move_bool m \<and> m \<in> set (legal_moves R (cur (board s)))))"
  shows "ai_step R e s = s\<lparr>ai_thinking := False\<rparr> \<and>
         board (ai_step R e s) = board s \<and>
         move_history (ai_step R e s) = move_history s \<and>
         captured_w (ai_step R e s) = captured_w s \<and>
         captured_b (ai_step R e s) = captured_b s \<and>
         last_move (ai_step R e s) = last_move s \<and>
         sequencer (ai_step R e s) = HumanTurn \<and>
         run_frame R s ([], e) = Inr (update_timer R (time_now e) (s\<lparr>ai_thinking := False\<rparr>))"
proof -
  have g: "get_ai_move e s = None \<or>
           (\<exists>m. get_ai_move e s = Some m \<and>
                \<not> (move_bool m \<and> m \<in> set (legal_moves R (cur (board s)))))"
    using assms(4) by (auto simp: get_ai_move_def)
  have a: "ai_step R e s = s\<lparr>ai_thinking := False\<rparr>"
    using g assms(2,3) by (auto simp: ai_step_def)
  have "sequencer (s\<lparr>ai_thinking := False\<rparr>) = HumanTurn"
    using assms(1,3) by (simp add: sequencer_def)
  moreover have "run_frame R s ([], e) = Inr (update_timer R (time_now e) (ai_step R e s))"
    using assms(1) by (simp add: run_frame_def frame_update_def)
  ultimately show ?thesis by (simp add: a)
qed

text \<open>
  The engine's turn after Kxg1, with an engine that returns nothing, one that returns the
  illegal Qa2-b2, and one that raises.
\<close>

theorem C6_engine_no_move_witness:
  "\<not> color_selection st_thinking \<and> ai_thinking st_thinking \<and> \<not> game_over st_thinking \<and>
   engine_play (env_at (0, 0) None 3) = PlayResult None \<and>
   ai_step toy_rules (env_at (0, 0) None 3) st_thinking = st_thinking\<lparr>ai_thinking := False\<rparr> \<and>
   sequencer (ai_step toy_rules (env_at (0, 0) None 3) st_thinking) = HumanTurn \<and>
   engine_play (env_at (0, 0) (Some (Move 8 9)) 3) = PlayResult (Some (Move 8 9)) \<and>
   Move 8 9 \<notin> set (legal_moves toy_rules (cur (board st_thinking))) \<and>
   ai_step toy_rules (env_at (0, 0) (Some (Move 8 9)) 3) st_thinking =
     st_thinking\<lparr>ai_thinking := False\<rparr> \<and>
   move_history (ai_step toy_rules (env_at (0, 0) (Some (Move 8 9)) 3) st_thinking) =
     move_history st_thinking \<and>
   engine_play (e0\<lparr>engine_play := PlayRaises\<rparr>) = PlayRaises \<and>
   ai_step toy_rules (e0\<lparr>engine_play := PlayRaises\<rparr>) st_thinking =
     st_thinking\<lparr>ai_thinking := False\<rparr>"
proof -
  have p1: "engine_play (env_at (0, 0) None 3) = PlayResult None"
    and p2: "engine_play (env_at (0, 0) (Some (Move 8 9)) 3) = PlayResult (Some (Move 8 9))"
    and p3: "engine_play (e0\<lparr>engine_play := PlayRaises\<rparr>) = PlayRaises"
    by (simp_all add: env_at_def)
  have nl: "Move 8 9 \<notin> set (legal_moves toy_rules (cur (board st_thinking)))" by code_simp
  note h = st_thinking_facts(4,3,2)
  have d1: "\<not> engine st_thinking \<or> engine_play (env_at (0, 0) None 3) = PlayRaises \<or>
      engine_play (env_at (0, 0) None 3) = PlayResult None \<or>
      (\<exists>m. engine_play (env_at (0, 0) None 3) = PlayResult (Some m) \<and>
           \<not> (move_bool m \<and> m \<in> set (legal_moves toy_rules (cur (board st_thinking)))))"
    using p1 by simp
  have d2: "\<not> engine st_thinking \<or>
      engine_play (env_at (0, 0) (Some (Move 8 9)) 3) = PlayRaises \<or>
      engine_play (env_at (0, 0) (Some (Move 8 9)) 3) = PlayResult None \<or>
      (\<exists>m. engine_play (env_at (0, 0) (Some (Move 8 9)) 3) = PlayResult (Some m) \<and>
           \<not> (move_bool m \<and> m \<in> set (legal_moves toy_rules (cur (board st_thinking)))))"
    using p2 nl by simp
  have d3: "\<not> engine st_thinking \<or> engine_play (e0\<lparr>engine_play := PlayRaises\<rparr>) = PlayRaises \<or>
      engine_play (e0\<lparr>engine_play := PlayRaises\<rparr>) = PlayResult None \<or>
      (\<exists>m. engine_play (e0\<lparr>engine_play := PlayRaises\<rparr>) = PlayResult (Some m) \<and>
           \<not> (move_bool m \<and> m \<in> set (legal_moves toy_rules (cur (board st_thinking)))))"
    using p3 by simp
  note c1 = C6_engine_no_move [OF h d1]
  note c2 = C6_engine_no_move [OF h d2]
  note c3 = C6_engine_no_move [OF h d3]
  have r1: "ai_step toy_rules (env_at (0, 0) None 3) st_thinking = st_thinking\<lparr>ai_thinking := False\<rparr>"
    and r1': "sequencer (ai_step toy_rules (env_at (0, 0) None 3) st_thinking) = HumanTurn"
    using c1 by blast+
  have r2: "ai_step toy_rules (env_at (0, 0) (Some (Move 8 9)) 3) st_thinking =
             st_thinking\<lparr>ai_thinking := False\<rparr>"
    and r2': "move_history (ai_step toy_rules (env_at (0, 0) (Some (Move 8 9)) 3) st_thinking) =
             move_history st_thinking"
    using c2 by blast+
  have r3: "ai_step toy_rules (e0\<lparr>engine_play := PlayRaises\<rparr>) st_thinking =
             st_thinking\<lparr>ai_thinking := False\<rparr>"
    using c3 by blast
  from h p1 p2 p3 nl r1 r1' r2 r2' r3 show ?thesis by blast
qed

lemma undo_cases:
  "undo s = Inl IndexError \<or>
   (\<exists>b2 h2. undo s =
      Inr (s\<lparr>board := b2, move_history := h2, game_over := False,
             checkmate_popup := False, ai_thinking := False,
             selected_square := None, valid_moves := [],
             selected_piece := None, selected_piece_pos := None\<rparr>))"
  by (auto simp: undo_def split: sum.splits py_error.splits intro: py_error.exhaust)

text \<open>
  C10. Whatever the state, the \<open>u\<close> key (when it returns) leaves both countdowns and the
  last clock reading, both capture tallies, the winner, the last-move marker, the colour,
  the engine and the flags of the run as they were: the state after it is the state before
  with at most the board, the history, the three flags \<open>game_over\<close>,
  \<open>checkmate_popup\<close>, \<open>ai_thinking\<close> and the four selection fields changed.
\<close>

theorem C10_undo_frame:
  "handle_event R e s (KEYDOWN K_u) = Inr s' \<longrightarrow>
     white_time s' = white_time s \<and> black_time s' = black_time s \<and>
     last_time s' = last_time s \<and>
     captured_w s' = captured_w s \<and> captured_b s' = captured_b s \<and>
     winner s' = winner s \<and> last_move s' = last_move s \<and>
     player_color s' = player_color s \<and> game_started s' = game_started s \<and>
     engine s' = engine s \<and> color_selection s' = color_selection s \<and>
     running s' = running s \<and>
     s' = s\<lparr>board := board s', move_history := move_history s',
            game_over := game_over s', checkmate_popup := checkmate_popup s',
            ai_thinking := ai_thinking s', selected_square := selected_square s',
            valid_moves := valid_moves s', selected_piece := selected_piece s',
            selected_piece_pos := selected_piece_pos s'\<rparr>"
proof
  assume h: "handle_event R e s (KEYDOWN K_u) = Inr s'"
  have "s' = s \<or> undo s = Inr s'"
    using h by (auto simp: handle_event_def key_down_def split: if_splits)
  then consider "s' = s"
    | b2 h2 where "s' = s\<lparr>board := b2, move_history := h2, game_over := False,
             checkmate_popup := False, ai_thinking := False,
             selected_square := None, valid_moves := [],
             selected_piece := None, selected_piece_pos := None\<rparr>"
    using undo_cases [of s] by auto
  then show "white_time s' = white_time s \<and> black_time s' = black_time s \<and>
     last_time s' = last_time s \<and>
     captured_w s' = captured_w s \<and> captured_b s' = captured_b s \<and>
     winner s' = winner s \<and> last_move s' = last_move s \<and>
     player_color s' = player_color s \<and> game_started s' = game_started s \<and>
     engine s' = engine s \<and> color_selection s' = color_selection s \<and>
     running s' = running s \<and>
     s' = s\<lparr>board := board s', move_history := move_history s',
            game_over := game_over s', checkmate_popup := checkmate_popup s',
            ai_thinking := ai_thinking s', selected_square := selected_square s',
            valid_moves := valid_moves s', selected_piece := selected_piece s',
            selected_piece_pos := selected_piece_pos s'\<rparr>"
    by cases simp_all
qed

lemma st_mated_run: "run toy_rules (init_game toy_rules e0) game_mated = Inr st_mated"
proof -
  from run_inv [OF init_inv, of toy_rules e0 game_mated]
  obtain s where "run toy_rules (init_game toy_rules e0) game_mated = Inr s" by blast
  then show ?thesis by (simp add: st_mated_def)
qed

lemma st_mated_facts:
  "game_over st_mated" "checkmate_popup st_mated" "\<not> color_selection st_mated"
  "\<not> ai_thinking st_mated"
  "winner st_mated = Some ''Black''" "captured_b st_mated = [''N'']" "captured_w st_mated = []"
  "move_history st_mated = [''Kxg1'', ''Qa1#'']"
  "white_time st_mated = 599" "black_time st_mated = 600"
  "cur (board st_mated) = T2"
  "stack (board st_mated) = [(T1, Move 8 0), (T0, Move 7 6)]"
  "is_checkmate toy_rules (cur (board st_mated))"
  "sequencer st_mated = GameOver"
  by code_simp+

lemma st_mated_undo:
  "handle_event toy_rules (env_at (0, 0) None 5) st_mated (KEYDOWN K_u) =
     Inr (projr (handle_event toy_rules (env_at (0, 0) None 5) st_mated (KEYDOWN K_u)))"
proof -
  have "game_inv toy_rules st_mated"
    using run_inv [OF init_inv, of toy_rules e0 game_mated] st_mated_run by auto
  from handle_event_inv [OF this, of "env_at (0, 0) None 5" "KEYDOWN K_u"]
  show ?thesis by auto
qed

text \<open>
  The undo after the engine's mate: the game is no longer over and the history is empty,
  while the winner is still Black, the knight taken by the undone Kxg1 is still in the
  tally, and the countdowns are as they were.
\<close>

theorem C10_undo_frame_witness:
  "handle_event toy_rules (env_at (0, 0) None 5) st_mated (KEYDOWN K_u) =
     Inr (projr (handle_event toy_rules (env_at (0, 0) None 5) st_mated (KEYDOWN K_u))) \<and>
   game_over st_mated \<and> winner st_mated = Some ''Black'' \<and>
   \<not> game_over (projr (handle_event toy_rules (env_at (0, 0) None 5) st_mated (KEYDOWN K_u))) \<and>
   move_history (projr (handle_event toy_rules (env_at (0, 0) None 5) st_mated (KEYDOWN K_u))) = [] \<and>
   winner (projr (handle_event toy_rules (env_at (0, 0) None 5) st_mated (KEYDOWN K_u))) =
     Some ''Black'' \<and>
   captured_b (projr (handle_event toy_rules (env_at (0, 0) None 5) st_mated (KEYDOWN K_u))) =
     [''N''] \<and>
   captured_w (projr (handle_event toy_rules (env_at (0, 0) None 5) st_mated (KEYDOWN K_u))) = [] \<and>
   white_time (projr (handle_event toy_rules (env_at (0, 0) None 5) st_mated (KEYDOWN K_u))) = 599 \<and>
   black_time (projr (handle_event toy_rules (env_at (0, 0) None 5) st_mated (KEYDOWN K_u))) = 600"
proof -
  let ?s' = "projr (handle_event toy_rules (env_at (0, 0) None 5) st_mated (KEYDOWN K_u))"
  note u = st_mated_undo
  from C10_undo_frame [of toy_rules "env_at (0, 0) None 5" st_mated ?s'] u
  have k: "white_time ?s' = white_time st_mated" "black_time ?s' = black_time st_mated"
    "captured_w ?s' = captured_w st_mated" "captured_b ?s' = captured_b st_mated"
    "winner ?s' = winner st_mated"
    by blast+
  have n: "\<not> game_over ?s'" "move_history ?s' = []" by code_simp+
  from u k n st_mated_facts show ?thesis by simp
qed

lemma popup_click_ignored:
  assumes "run R (init_game R ei) frs = Inr s" and "checkmate_popup s"
  shows "handle_event R e s (MOUSEBUTTONDOWN q b) = Inr s"
proof -
  from run_inv [OF init_inv, of R ei frs] assms(1) have "game_inv R s" by auto
  with assms(2) have "game_over s" "\<not> color_selection s" by (auto simp: game_inv_def)
  then show ?thesis by (simp add: handle_event_def)
qed

text \<open>
  C1, on the code: after Kxg1 and Qa1 mate the game is over and the popup is shown
  (``Black wins!''); a left press at \<open>(500, 925)\<close>, inside the ``New Game'' button,
  returns the state unchanged, still \<open>GameOver\<close> and with the history kept: nothing is
  reinitialized. The guard \<open>not self.game_over\<close> of the press branch excludes the very
  states in which the popup is shown, as \<open>popup_click_ignored\<close> shows for every run.
\<close>

theorem C1_new_game_button_ignored:
  "run toy_rules (init_game toy_rules e0) game_mated = Inr st_mated \<and>
   game_over st_mated \<and> checkmate_popup st_mated \<and>
   popup_text st_mated = Some ''Black wins!'' \<and>
   collidepoint button_rect (500, 925) \<and>
   handle_event toy_rules (env_at (500, 925) None 4) st_mated (MOUSEBUTTONDOWN (500, 925) 1) =
     Inr st_mated \<and>
   sequencer st_mated = GameOver \<and>
   move_history st_mated = [''Kxg1'', ''Qa1#'']"
proof -
  have c: "collidepoint button_rect (500, 925)"
    by (simp add: collidepoint_def button_rect_def board_consts)
  have p: "popup_text st_mated = Some ''Black wins!''" by code_simp
  from popup_click_ignored [OF st_mated_run st_mated_facts(2)] st_mated_run st_mated_facts c p
  show ?thesis by simp
qed

lemma record_capture_tally:
  "piece_at R (cur (board s)) t = None \<Longrightarrow>
     captured_w (record_capture R s t) = captured_w s \<and>
     captured_b (record_capture R s t) = captured_b s"
  "piece_at R (cur (board s)) t = Some cp \<Longrightarrow>
     captured_w (record_capture R s t) =
       (if color cp = WHITE then captured_w s @ [symbol_upper cp] else captured_w s) \<and>
     captured_b (record_capture R s t) =
       (if color cp = WHITE then captured_b s else captured_b s @ [symbol_upper cp])"
  by (simp_all add: record_capture_def)

lemma clear_selection_frame:
  "board (clear_selection s) = board s"
  "move_history (clear_selection s) = move_history s"
  "captured_w (clear_selection s) = captured_w s"
  "captured_b (clear_selection s) = captured_b s"
  "last_move (clear_selection s) = last_move s"
  "game_over (clear_selection s) = game_over s"
  "checkmate_popup (clear_selection s) = checkmate_popup s"
  "winner (clear_selection s) = winner s"
  "ai_thinking (clear_selection s) = ai_thinking s"
  "color_selection (clear_selection s) = color_selection s"
  by (simp_all add: clear_selection_def)

lemma undo_pops:
  assumes "undo s = Inr s'"
  shows "\<exists>b1. pop (board s) = Inr b1 \<and> pop b1 = Inr (board s') \<and>
           captured_w s' = captured_w s \<and> captured_b s' = captured_b s"
  using assms by (auto simp: undo_def split: sum.splits)

lemma handle_event_simps:
  "handle_event R e s QUIT = Inr (s\<lparr>running := False\<rparr>)"
  "handle_event R e s (MOUSEBUTTONDOWN q b) =
     (if color_selection s then Inr (choose_color R e s q)
      else if \<not> game_over s \<and> \<not> ai_thinking s then Inr (mouse_down R e s q b)
      else Inr s)"
  "handle_event R e s (MOUSEBUTTONUP q b) =
     (if color_selection s then Inr s
      else if \<not> game_over s \<and> \<not> ai_thinking s then Inr (mouse_up R e s b)
      else Inr s)"
  "handle_event R e s (MOUSEMOTION q) =
     (if color_selection s then Inr s
      else if str_truthy (selected_piece s) then Inr (s\<lparr>selected_piece_pos := Some q\<rparr>)
      else Inr s)"
  "handle_event R e s (KEYDOWN k) = (if color_selection s then Inr s else key_down R e s k)"
  "handle_event R e s OTHER = Inr s"
  by (simp_all add: handle_event_def)

lemma handle_event_summary:
  fixes s :: "'a game"
  assumes "handle_event R e s ev = Inr s'"
  shows
    "(board s' = board s \<and> move_history s' = move_history s \<and>
      captured_w s' = captured_w s \<and> captured_b s' = captured_b s) \<or>
     (board s' = new_board R \<and> move_history s' = [] \<and>
      captured_w s' = [] \<and> captured_b s' = [] \<and> color_selection s') \<or>
     (\<exists>b1. pop (board s) = Inr b1 \<and> pop b1 = Inr (board s') \<and>
           captured_w s' = captured_w s \<and> captured_b s' = captured_b s) \<or>
     (\<exists>m. color_selection s \<and> move_bool m \<and> m \<in> set (legal_moves R (cur (board s))) \<and>
          board s' = push R (board s) m \<and>
          move_history s' = move_history s @ [san R (cur (board s)) m] \<and>
          captured_w s' = captured_w s \<and> captured_b s' = captured_b s) \<or>
     (\<exists>m. \<not> color_selection s \<and> m \<in> set (valid_moves s) \<and>
          board s' = push R (board s) m \<and>
          move_history s' = move_history s @ [san R (cur (board s)) m] \<and>
          captured_w s' = captured_w (record_capture R s (to_square m)) \<and>
          captured_b s' = captured_b (record_capture R s (to_square m)))"
    (is "?same \<or> ?reset \<or> ?undo \<or> ?first \<or> ?human")
proof (cases ev)
  case QUIT
  with assms have "s' = s\<lparr>running := False\<rparr>" by (simp add: handle_event_def)
  then have ?same by simp
  then show ?thesis by blast
next
  case (MOUSEBUTTONDOWN q b)
  have "(if color_selection s then Inr (choose_color R e s q)
         else if \<not> game_over s \<and> \<not> ai_thinking s then Inr (mouse_down R e s q b)
         else Inr s) = (Inr s' :: py_error + 'a game)"
    using assms unfolding MOUSEBUTTONDOWN handle_event_simps .
  then consider (c) "color_selection s" "s' = choose_color R e s q"
    | (d) "\<not> color_selection s" "s' = mouse_down R e s q b"
    | (n) "s' = s"
    by (cases "color_selection s"; cases "\<not> game_over s \<and> \<not> ai_thinking s") auto
  then show ?thesis
  proof cases
    case c
    from choose_color_cases [of R e s q] c(2)
    consider "s' = s"
      | cl where "s' = s\<lparr>player_color := Some cl, color_selection := False, game_started := True\<rparr>"
      | m where "move_bool m" "m \<in> set (legal_moves R (cur (board s)))"
          "s' = apply_first_move R
            (s\<lparr>player_color := Some False, color_selection := False, game_started := True\<rparr>) m"
      by auto
    then show ?thesis
    proof cases
      case 1
      then have ?same by simp
      then show ?thesis by blast
    next
      case 2
      then have ?same by simp
      then show ?thesis by blast
    next
      case 3
      then have ?first using c(1) by (auto simp: apply_first_move_frame)
      then show ?thesis by blast
    qed
  next
    case d
    have "mouse_down R e s q b = s \<or>
          mouse_down R e s q b = (reset_game R e s)\<lparr>color_selection := True\<rparr> \<or>
          (board (mouse_down R e s q b) = board s \<and>
           move_history (mouse_down R e s q b) = move_history s \<and>
           captured_w (mouse_down R e s q b) = captured_w s \<and>
           captured_b (mouse_down R e s q b) = captured_b s)"
      using mouse_down_cases [of R e s q b] by (elim disjE exE conjE) simp_all
    then consider "s' = s" | "s' = (reset_game R e s)\<lparr>color_selection := True\<rparr>" | "?same"
      unfolding d(2) by blast
    then show ?thesis
    proof cases
      case 1
      then have ?same by simp
      then show ?thesis by blast
    next
      case 2
      then have ?reset by (simp add: reset_game_def)
      then show ?thesis by blast
    next
      case 3
      then show ?thesis by blast
    qed
  next
    case n
    then have ?same by simp
    then show ?thesis by blast
  qed
next
  case (MOUSEBUTTONUP q b)
  have "(if color_selection s then Inr s
         else if \<not> game_over s \<and> \<not> ai_thinking s then Inr (mouse_up R e s b)
         else Inr s) = (Inr s' :: py_error + 'a game)"
    using assms unfolding MOUSEBUTTONUP handle_event_simps .
  then consider (d) "\<not> color_selection s" "s' = mouse_up R e s b" | (n) "s' = s"
    by (cases "color_selection s"; cases "\<not> game_over s \<and> \<not> ai_thinking s") auto
  then show ?thesis
  proof cases
    case d
    from mouse_up_cases [of R e s b] d(2)
    consider "s' = s" | "s' = clear_selection s"
      | m where "m \<in> set (valid_moves s)" "s' = clear_selection (apply_human_move R s m)"
      by auto
    then show ?thesis
    proof cases
      case 1
      then have ?same by simp
      then show ?thesis by blast
    next
      case 2
      then have ?same by (simp add: clear_selection_frame)
      then show ?thesis by blast
    next
      case 3
      then have ?human using d(1) by (auto simp: clear_selection_frame apply_human_move_frame)
      then show ?thesis by blast
    qed
  next
    case n
    then have ?same by simp
    then show ?thesis by blast
  qed
next
  case (MOUSEMOTION q)
  have "(if color_selection s then Inr s
         else if str_truthy (selected_piece s) then Inr (s\<lparr>selected_piece_pos := Some q\<rparr>)
         else Inr s) = (Inr s' :: py_error + 'a game)"
    using assms unfolding MOUSEMOTION handle_event_simps .
  then have "s' = s \<or> s' = s\<lparr>selected_piece_pos := Some q\<rparr>"
    by (cases "color_selection s"; cases "str_truthy (selected_piece s)") auto
  then have ?same by auto
  then show ?thesis by blast
next
  case (KEYDOWN k)
  have h: "(if color_selection s then Inr s else key_down R e s k) = (Inr s' :: py_error + 'a game)"
    using assms unfolding KEYDOWN handle_event_simps .
  have "s' = s \<or> s' = (reset_game R e s)\<lparr>color_selection := True\<rparr> \<or> undo s = Inr s'"
  proof (cases "color_selection s")
    case True
    with h show ?thesis by simp
  next
    case False
    with h have kd: "key_down R e s k = Inr s'" by simp
    show ?thesis
    proof (cases k)
      case K_r
      with kd show ?thesis by (simp add: key_down_def)
    next
      case K_u
      with kd show ?thesis by (cases "2 \<le> length (move_history s)") (simp_all add: key_down_def)
    next
      case K_other
      with kd show ?thesis by (simp add: key_down_def)
    qed
  qed
  then consider (n) "s' = s" | (r) "s' = (reset_game R e s)\<lparr>color_selection := True\<rparr>"
    | (u) "undo s = Inr s'"
    by blast
  then show ?thesis
  proof cases
    case n
    then have ?same by simp
    then show ?thesis by blast
  next
    case r
    then have ?reset by (simp add: reset_game_def)
    then show ?thesis by blast
  next
    case u
    from undo_pops [OF u] have ?undo .
    then show ?thesis by blast
  qed
next
  case OTHER
  with assms have "s' = s" by (simp add: handle_event_def)
  then have ?same by simp
  then show ?thesis by blast
qed

lemma frame_update_summary:
  "(board (frame_update R e s) = board s \<and> move_history (frame_update R e s) = move_history s \<and>
    captured_w (frame_update R e s) = captured_w s \<and>
    captured_b (frame_update R e s) = captured_b s) \<or>
   (\<exists>m. \<not> color_selection s \<and> ai_thinking s \<and> \<not> game_over s \<and> get_ai_move e s = Some m \<and>
        move_bool m \<and> m \<in> set (legal_moves R (cur (board s))) \<and>
        board (frame_update R e s) = push R (board s) m \<and>
        move_history (frame_update R e s) = move_history s @ [san R (cur (board s)) m] \<and>
        captured_w (frame_update R e s) = captured_w (record_capture R s (to_square m)) \<and>
        captured_b (frame_update R e s) = captured_b (record_capture R s (to_square m)))"
proof (cases "color_selection s")
  case True
  then show ?thesis by (simp add: frame_update_def)
next
  case False
  then have f: "frame_update R e s = update_timer R (time_now e) (ai_step R e s)"
    by (simp add: frame_update_def)
  consider (same) "ai_step R e s = s"
    | (none) "ai_step R e s = s\<lparr>ai_thinking := False\<rparr>"
    | (move) m where "ai_thinking s" "\<not> game_over s" "get_ai_move e s = Some m" "move_bool m"
        "m \<in> set (legal_moves R (cur (board s)))"
        "ai_step R e s = (apply_ai_move R s m)\<lparr>ai_thinking := False\<rparr>"
    using ai_step_cases [of R e s] by blast
  then show ?thesis
  proof cases
    case same
    then show ?thesis by (simp add: f update_timer_frame)
  next
    case none
    then show ?thesis by (simp add: f update_timer_frame)
  next
    case move
    have "board (frame_update R e s) = push R (board s) m"
      "move_history (frame_update R e s) = move_history s @ [san R (cur (board s)) m]"
      "captured_w (frame_update R e s) = captured_w (record_capture R s (to_square m))"
      "captured_b (frame_update R e s) = captured_b (record_capture R s (to_square m))"
      by (simp_all add: f move(6) update_timer_frame apply_ai_move_frame)
    with False move(1-5) show ?thesis by blast
  qed
qed

lemma two_pops_not_push:
  assumes "pop b = Inr b1" "pop b1 = Inr b2"
  shows "stack b2 \<noteq> x # stack b"
proof -
  from assms have l: "length (stack b) = Suc (Suc (length (stack b2)))"
    by (auto simp: pop_def split: list.splits)
  show ?thesis
  proof
    assume "stack b2 = x # stack b"
    then have "length (stack b2) = Suc (length (stack b))" by simp
    with l show False by simp
  qed
qed

lemma step_pushes:
  fixes s :: "'a game"
  assumes "handle_event R e s ev = Inr s'" and "stack (board s') = (p, m) # stack (board s)"
  shows "p = cur (board s) \<and> board s' = push R (board s) m \<and>
         move_history s' = move_history s @ [san R (cur (board s)) m] \<and>
         (if color_selection s
          then m \<in> set (legal_moves R (cur (board s))) \<and>
               captured_w s' = captured_w s \<and> captured_b s' = captured_b s
          else captured_w s' = captured_w (record_capture R s (to_square m)) \<and>
               captured_b s' = captured_b (record_capture R s (to_square m)))"
proof -
  from handle_event_summary [OF assms(1)]
  consider (same) "board s' = board s"
    | (reset) "board s' = new_board R"
    | (undo) b1 where "pop (board s) = Inr b1" "pop b1 = Inr (board s')"
    | (first) m' where "color_selection s" "m' \<in> set (legal_moves R (cur (board s)))"
        "board s' = push R (board s) m'"
        "move_history s' = move_history s @ [san R (cur (board s)) m']"
        "captured_w s' = captured_w s" "captured_b s' = captured_b s"
    | (human) m' where "\<not> color_selection s"
        "board s' = push R (board s) m'"
        "move_history s' = move_history s @ [san R (cur (board s)) m']"
        "captured_w s' = captured_w (record_capture R s (to_square m'))"
        "captured_b s' = captured_b (record_capture R s (to_square m'))"
    by blast
  then show ?thesis
  proof cases
    case same
    with assms(2) show ?thesis by simp
  next
    case reset
    with assms(2) show ?thesis by (simp add: new_board_def)
  next
    case undo
    from two_pops_not_push [OF undo] assms(2) show ?thesis by blast
  next
    case first
    from first(3) assms(2) have "p = cur (board s)" "m' = m" by simp_all
    with first show ?thesis by simp
  next
    case human
    from human(2) assms(2) have "p = cur (board s)" "m' = m" by simp_all
    with human show ?thesis by simp
  qed
qed

lemma frame_pushes:
  assumes "stack (board (frame_update R e s)) = (p, m) # stack (board s)"
  shows "p = cur (board s) \<and> board (frame_update R e s) = push R (board s) m \<and>
         move_history (frame_update R e s) = move_history s @ [san R (cur (board s)) m] \<and>
         \<not> color_selection s \<and>
         captured_w (frame_update R e s) = captured_w (record_capture R s (to_square m)) \<and>
         captured_b (frame_update R e s) = captured_b (record_capture R s (to_square m))"
proof -
  from frame_update_summary [of R e s]
  consider (same) "board (frame_update R e s) = board s"
    | (move) m' where "\<not> color_selection s"
        "board (frame_update R e s) = push R (board s) m'"
        "move_history (frame_update R e s) = move_history s @ [san R (cur (board s)) m']"
        "captured_w (frame_update R e s) = captured_w (record_capture R s (to_square m'))"
        "captured_b (frame_update R e s) = captured_b (record_capture R s (to_square m'))"
    by blast
  then show ?thesis
  proof cases
    case same
    with assms show ?thesis by simp
  next
    case move
    from move(2) assms have "p = cur (board s)" "m' = m" by simp_all
    with move show ?thesis by simp
  qed
qed

lemma release_applies:
  assumes "\<not> color_selection s" "\<not> game_over s" "\<not> ai_thinking s"
    and "selected_square s = Some sel"
    and "pixel_to_square (player_color s) (mouse_get_pos e) = Some tgt"
    and "Move sel tgt \<in> set (valid_moves s)"
  shows "handle_event R e s (MOUSEBUTTONUP q 1) =
           Inr (clear_selection (apply_human_move R s (Move sel tgt)))"
  using assms by (simp add: handle_event_simps mouse_up_def clear_selection_def)

lemma reply_applies:
  assumes "\<not> color_selection s" "ai_thinking s" "\<not> game_over s"
    and "get_ai_move e s = Some m" "move_bool m" "m \<in> set (legal_moves R (cur (board s)))"
  shows "frame_update R e s =
           update_timer R (time_now e) ((apply_ai_move R s m)\<lparr>ai_thinking := False\<rparr>)"
  using assms by (simp add: frame_update_def ai_step_def)

lemma opening_applies:
  assumes "color_selection s" "\<not> collidepoint white_rect q" "collidepoint black_rect q"
    and "get_ai_move e s = Some m" "move_bool m" "m \<in> set (legal_moves R (cur (board s)))"
  shows "handle_event R e s (MOUSEBUTTONDOWN q b) =
           Inr (apply_first_move R
             (s\<lparr>player_color := Some False, color_selection := False, game_started := True\<rparr>) m)"
proof -
  have "get_ai_move e
      (s\<lparr>player_color := Some False, color_selection := False, game_started := True\<rparr>) =
      get_ai_move e s"
    by (simp add: get_ai_move_def)
  with assms show ?thesis by (simp add: handle_event_simps choose_color_def)
qed

text \<open>
  C8. Every event and every frame that pushes a move onto the board pushes it in the
  position the board had before, and appends to the history the notation \<open>san\<close> gives
  for that move in that position, the one before the push. All three places that apply
  a move do so: the human's release on a destination of \<open>valid_moves\<close>, the engine's
  legal reply in its turn, and the engine's legal first move after a press on the Black
  button.
\<close>

theorem C8_san_before_push:
  "(handle_event R e s ev = Inr s' \<and> stack (board s') = (p, m) # stack (board s) \<longrightarrow>
      p = cur (board s) \<and> board s' = push R (board s) m \<and>
      move_history s' = move_history s @ [san R (cur (board s)) m]) \<and>
   (stack (board (frame_update R e s)) = (p, m) # stack (board s) \<longrightarrow>
      p = cur (board s) \<and> board (frame_update R e s) = push R (board s) m \<and>
      move_history (frame_update R e s) = move_history s @ [san R (cur (board s)) m]) \<and>
   (\<not> color_selection s \<and> \<not> game_over s \<and> \<not> ai_thinking s \<and>
    selected_square s = Some sel \<and>
    pixel_to_square (player_color s) (mouse_get_pos e) = Some tgt \<and>
    Move sel tgt \<in> set (valid_moves s) \<longrightarrow>
      (\<exists>s1. handle_event R e s (MOUSEBUTTONUP q 1) = Inr s1 \<and>
            board s1 = push R (board s) (Move sel tgt) \<and>
            move_history s1 = move_history s @ [san R (cur (board s)) (Move sel tgt)])) \<and>
   (\<not> color_selection s \<and> ai_thinking s \<and> \<not> game_over s \<and>
    get_ai_move e s = Some m \<and> move_bool m \<and> m \<in> set (legal_moves R (cur (board s))) \<longrightarrow>
      board (frame_update R e s) = push R (board s) m \<and>
      move_history (frame_update R e s) = move_history s @ [san R (cur (board s)) m]) \<and>
   (color_selection s \<and> \<not> collidepoint white_rect q \<and> collidepoint black_rect q \<and>
    get_ai_move e s = Some m \<and> move_bool m \<and> m \<in> set (legal_moves R (cur (board s))) \<longrightarrow>
      (\<exists>s1. handle_event R e s (MOUSEBUTTONDOWN q b) = Inr s1 \<and>
            board s1 = push R (board s) m \<and>
            move_history s1 = move_history s @ [san R (cur (board s)) m]))"
proof (intro conjI impI)
  assume "handle_event R e s ev = Inr s' \<and> stack (board s') = (p, m) # stack (board s)"
  then have a: "handle_event R e s ev = Inr s'" "stack (board s') = (p, m) # stack (board s)"
    by simp_all
  from step_pushes [OF a]
  show "p = cur (board s)" "board s' = push R (board s) m"
    "move_history s' = move_history s @ [san R (cur (board s)) m]"
    by blast+
next
  assume a: "stack (board (frame_update R e s)) = (p, m) # stack (board s)"
  from frame_pushes [OF a]
  show "p = cur (board s)" "board (frame_update R e s) = push R (board s) m"
    "move_history (frame_update R e s) = move_history s @ [san R (cur (board s)) m]"
    by blast+
next
  assume "\<not> color_selection s \<and> \<not> game_over s \<and> \<not> ai_thinking s \<and>
    selected_square s = Some sel \<and>
    pixel_to_square (player_color s) (mouse_get_pos e) = Some tgt \<and>
    Move sel tgt \<in> set (valid_moves s)"
  then have "handle_event R e s (MOUSEBUTTONUP q 1) =
           Inr (clear_selection (apply_human_move R s (Move sel tgt)))"
    by (intro release_applies) simp_all
  then show "\<exists>s1. handle_event R e s (MOUSEBUTTONUP q 1) = Inr s1 \<and>
            board s1 = push R (board s) (Move sel tgt) \<and>
            move_history s1 = move_history s @ [san R (cur (board s)) (Move sel tgt)]"
    by (simp add: clear_selection_frame apply_human_move_frame)
next
  assume "\<not> color_selection s \<and> ai_thinking s \<and> \<not> game_over s \<and>
    get_ai_move e s = Some m \<and> move_bool m \<and> m \<in> set (legal_moves R (cur (board s)))"
  then have f: "frame_update R e s =
           update_timer R (time_now e) ((apply_ai_move R s m)\<lparr>ai_thinking := False\<rparr>)"
    by (intro reply_applies) simp_all
  show "board (frame_update R e s) = push R (board s) m"
    "move_history (frame_update R e s) = move_history s @ [san R (cur (board s)) m]"
    by (simp_all add: f update_timer_frame apply_ai_move_frame)
next
  assume "color_selection s \<and> \<not> collidepoint white_rect q \<and> collidepoint black_rect q \<and>
    get_ai_move e s = Some m \<and> move_bool m \<and> m \<in> set (legal_moves R (cur (board s)))"
  then have "handle_event R e s (MOUSEBUTTONDOWN q b) =
           Inr (apply_first_move R
             (s\<lparr>player_color := Some False, color_selection := False, game_started := True\<rparr>) m)"
    by (intro opening_applies) simp_all
  then show "\<exists>s1. handle_event R e s (MOUSEBUTTONDOWN q b) = Inr s1 \<and>
            board s1 = push R (board s) m \<and>
            move_history s1 = move_history s @ [san R (cur (board s)) m]"
    by (simp add: apply_first_move_frame)
qed

lemma st_selected_facts:
  "\<not> color_selection st_selected" "\<not> game_over st_selected" "\<not> ai_thinking st_selected"
  "selected_square st_selected = Some 7" "valid_moves st_selected = [Move 7 6]"
  "selected_piece st_selected = Some ''wk''" "selected_piece_pos st_selected = Some (580, 580)"
  "player_color st_selected = Some True"
  "cur (board st_selected) = T0" "stack (board st_selected) = []"
  "move_history st_selected = []" "captured_w st_selected = []" "captured_b st_selected = []"
  "turn toy_rules (cur (board st_selected)) = WHITE"
  "piece_at toy_rules (cur (board st_selected)) 6 = Some (mk_piece False KNIGHT)"
  by code_simp+

lemma toy_pixels:
  "pixel_to_square (Some True) (530, 580) = Some 6"
  "pixel_to_square (Some True) (580, 580) = Some 7"
  "pixel_to_square (Some True) (60, 510) = Some 8"
  by code_simp+

text \<open>
  The three paths on the small table: the human's Kxg1 is recorded as \<open>Kxg1\<close>, the
  notation of the position before it; the engine's reply as \<open>Qa1#\<close>; and, with the human
  choosing Black instead, the engine's first move as \<open>Kxg1\<close>.
\<close>

theorem C8_san_before_push_witness:
  "\<not> color_selection st_selected \<and> \<not> game_over st_selected \<and> \<not> ai_thinking st_selected \<and>
   selected_square st_selected = Some 7 \<and>
   pixel_to_square (player_color st_selected) (mouse_get_pos (env_at (530, 580) None 2)) = Some 6 \<and>
   Move 7 6 \<in> set (valid_moves st_selected) \<and>
   san toy_rules (cur (board st_selected)) (Move 7 6) = ''Kxg1'' \<and>
   (\<exists>s1. handle_event toy_rules (env_at (530, 580) None 2) st_selected
           (MOUSEBUTTONUP (530, 580) 1) = Inr s1 \<and>
         board s1 = push toy_rules (board st_selected) (Move 7 6) \<and>
         move_history s1 = [''Kxg1'']) \<and>
   ai_thinking st_thinking \<and>
   get_ai_move (env_at (0, 0) (Some (Move 8 0)) 3) st_thinking = Some (Move 8 0) \<and>
   move_bool (Move 8 0) \<and>
   Move 8 0 \<in> set (legal_moves toy_rules (cur (board st_thinking))) \<and>
   move_history (frame_update toy_rules (env_at (0, 0) (Some (Move 8 0)) 3) st_thinking) =
     [''Kxg1'', ''Qa1#''] \<and>
   color_selection (init_game toy_rules e0) \<and>
   collidepoint black_rect (600, 320) \<and>
   (\<exists>s1. handle_event toy_rules (env_at (600, 320) (Some (Move 7 6)) 1) (init_game toy_rules e0)
           (MOUSEBUTTONDOWN (600, 320) 1) = Inr s1 \<and>
         move_history s1 = [''Kxg1''])"
proof -
  let ?e = "env_at (530, 580) None 2"
  note t = C8_san_before_push [where R = toy_rules and e = ?e and s = st_selected
      and sel = 7 and tgt = 6 and q = "(530, 580)"]
  have px: "pixel_to_square (player_color st_selected) (mouse_get_pos ?e) = Some 6"
    by (simp add: st_selected_facts env_at_def toy_pixels)
  have vm: "Move 7 6 \<in> set (valid_moves st_selected)" by (simp add: st_selected_facts)
  have sn: "san toy_rules (cur (board st_selected)) (Move 7 6) = ''Kxg1''" by code_simp
  from t st_selected_facts(1-4) px vm
  obtain s1 where s1: "handle_event toy_rules ?e st_selected (MOUSEBUTTONUP (530, 580) 1) = Inr s1"
    "board s1 = push toy_rules (board st_selected) (Move 7 6)"
    "move_history s1 = move_history st_selected @ [san toy_rules (cur (board st_selected)) (Move 7 6)]"
    by blast
  from s1(3) sn have h1: "move_history s1 = [''Kxg1'']" by (simp add: st_selected_facts)
  let ?a = "env_at (0, 0) (Some (Move 8 0)) 3"
  note u = C8_san_before_push [where R = toy_rules and e = ?a and s = st_thinking
      and m = "Move 8 0"]
  have g: "get_ai_move ?a st_thinking = Some (Move 8 0)"
    by (simp add: get_ai_move_def st_thinking_facts env_at_def)
  have mb: "move_bool (Move 8 0)" by (simp add: move_bool_def Move_def)
  have lg: "Move 8 0 \<in> set (legal_moves toy_rules (cur (board st_thinking)))" by code_simp
  have hs: "move_history st_thinking = [''Kxg1'']"
    "san toy_rules (cur (board st_thinking)) (Move 8 0) = ''Qa1#''" by code_simp+
  from u st_thinking_facts(2-4) g mb lg
  have "move_history (frame_update toy_rules ?a st_thinking) =
      move_history st_thinking @ [san toy_rules (cur (board st_thinking)) (Move 8 0)]"
    by blast
  with hs have h2: "move_history (frame_update toy_rules ?a st_thinking) = [''Kxg1'', ''Qa1#'']"
    by simp
  let ?o = "env_at (600, 320) (Some (Move 7 6)) 1"
  note v = C8_san_before_push [where R = toy_rules and e = ?o and s = "init_game toy_rules e0"
      and m = "Move 7 6" and q = "(600, 320)" and b = 1]
  have c: "color_selection (init_game toy_rules e0)" by (simp add: init_game_def)
  have cb: "collidepoint black_rect (600, 320)" "\<not> collidepoint white_rect (600, 320)"
    by (simp_all add: collidepoint_def black_rect_def white_rect_def board_consts)
  have g0: "get_ai_move ?o (init_game toy_rules e0) = Some (Move 7 6)"
    by (simp add: get_ai_move_def init_game_def env_at_def e0_def)
  have mb0: "move_bool (Move 7 6)" by (simp add: move_bool_def Move_def)
  have lg0: "Move 7 6 \<in> set (legal_moves toy_rules (cur (board (init_game toy_rules e0))))"
    by code_simp
  have hs0: "move_history (init_game toy_rules e0) = []"
    "san toy_rules (cur (board (init_game toy_rules e0))) (Move 7 6) = ''Kxg1''" by code_simp+
  from v c cb g0 mb0 lg0
  obtain s2 where s2: "handle_event toy_rules ?o (init_game toy_rules e0)
      (MOUSEBUTTONDOWN (600, 320) 1) = Inr s2"
    "move_history s2 = move_history (init_game toy_rules e0) @
      [san toy_rules (cur (board (init_game toy_rules e0))) (Move 7 6)]"
    by blast
  from s2(2) hs0 have h3: "move_history s2 = [''Kxg1'']" by simp
  from st_selected_facts(1-4) px vm sn s1(1,2) h1 st_thinking_facts(3) g mb lg h2 c cb(1) s2(1) h3
  show ?thesis by blast
qed

lemma tally_after_capture:
  assumes "captured_w s' = captured_w (record_capture R s t)"
    and "captured_b s' = captured_b (record_capture R s t)"
    and "piece_at R (cur (board s)) t = Some cp"
  shows "capture_tally (\<not> color cp) s' = capture_tally (\<not> color cp) s @ [symbol_upper cp]"
    and "capture_tally (color cp) s' = capture_tally (color cp) s"
    and "captured_w s' = (if color cp = WHITE then captured_w s @ [symbol_upper cp] else captured_w s)"
    and "captured_b s' = (if color cp = WHITE then captured_b s else captured_b s @ [symbol_upper cp])"
  using assms record_capture_tally(2) [OF assms(3)]
  by (auto simp: capture_tally_def WHITE_def)

lemma tally_no_capture:
  assumes "captured_w s' = captured_w (record_capture R s t)"
    and "captured_b s' = captured_b (record_capture R s t)"
    and "piece_at R (cur (board s)) t = None"
  shows "captured_w s' = captured_w s \<and> captured_b s' = captured_b s"
  using assms record_capture_tally(1) [OF assms(3)] by simp

text \<open>
  C2. In play, an event or a frame that pushes a move whose destination square held, in
  the position before the push, a piece of the side not to move appends the letter of
  that piece's kind to the tally of the side to move, the capturing side, and leaves the
  other tally alone; so a release by the human as White on a square holding a Black piece
  appends the piece's kind to White's tally. Every event and every frame either leaves
  both tallies as they were, or is a reset into the colour selection, which installs two
  new empty lists, or pushes a move onto a square that was occupied and appends that
  piece's kind to one tally. In the colour selection the only move pushed is a legal
  move of the board's position, which in every run is the start position, and the
  tallies are untouched.
\<close>

theorem C2_capture_tally:
  "(handle_event R e s ev = Inr s' \<and> \<not> color_selection s \<and>
    stack (board s') = (p, m) # stack (board s) \<and>
    piece_at R (cur (board s)) (to_square m) = Some cp \<and>
    color cp \<noteq> turn R (cur (board s)) \<longrightarrow>
      capture_tally (turn R (cur (board s))) s' =
        capture_tally (turn R (cur (board s))) s @ [symbol_upper cp] \<and>
      capture_tally (color cp) s' = capture_tally (color cp) s) \<and>
   (stack (board (frame_update R e s)) = (p, m) # stack (board s) \<and>
    piece_at R (cur (board s)) (to_square m) = Some cp \<and>
    color cp \<noteq> turn R (cur (board s)) \<longrightarrow>
      capture_tally (turn R (cur (board s))) (frame_update R e s) =
        capture_tally (turn R (cur (board s))) s @ [symbol_upper cp] \<and>
      capture_tally (color cp) (frame_update R e s) = capture_tally (color cp) s) \<and>
   (\<not> color_selection s \<and> \<not> game_over s \<and> \<not> ai_thinking s \<and>
    selected_square s = Some sel \<and>
    pixel_to_square (player_color s) (mouse_get_pos e) = Some tgt \<and>
    Move sel tgt \<in> set (valid_moves s) \<and>
    turn R (cur (board s)) = WHITE \<and>
    piece_at R (cur (board s)) tgt = Some cp \<and> color cp = BLACK \<longrightarrow>
      (\<exists>s1. handle_event R e s (MOUSEBUTTONUP q 1) = Inr s1 \<and>
            board s1 = push R (board s) (Move sel tgt) \<and>
            capture_tally WHITE s1 = capture_tally WHITE s @ [symbol_upper cp] \<and>
            capture_tally BLACK s1 = capture_tally BLACK s)) \<and>
   (handle_event R e s ev = Inr s' \<longrightarrow>
      (captured_w s' = captured_w s \<and> captured_b s' = captured_b s) \<or>
      (captured_w s' = [] \<and> captured_b s' = [] \<and> color_selection s' \<and> board s' = new_board R) \<or>
      (\<exists>m1 c1. board s' = push R (board s) m1 \<and>
          piece_at R (cur (board s)) (to_square m1) = Some c1 \<and>
          capture_tally (\<not> color c1) s' = capture_tally (\<not> color c1) s @ [symbol_upper c1] \<and>
          capture_tally (color c1) s' = capture_tally (color c1) s)) \<and>
   ((captured_w (frame_update R e s) = captured_w s \<and>
     captured_b (frame_update R e s) = captured_b s) \<or>
    (\<exists>m1 c1. board (frame_update R e s) = push R (board s) m1 \<and>
        piece_at R (cur (board s)) (to_square m1) = Some c1 \<and>
        capture_tally (\<not> color c1) (frame_update R e s) =
          capture_tally (\<not> color c1) s @ [symbol_upper c1] \<and>
        capture_tally (color c1) (frame_update R e s) = capture_tally (color c1) s)) \<and>
   (handle_event R e s ev = Inr s' \<and> color_selection s \<and>
    stack (board s') = (p, m) # stack (board s) \<longrightarrow>
      m \<in> set (legal_moves R (cur (board s))) \<and>
      captured_w s' = captured_w s \<and> captured_b s' = captured_b s) \<and>
   (run R (init_game R ei) frs = Inr s \<and> color_selection s \<longrightarrow> board s = new_board R)"
proof (intro conjI impI)
  assume a: "handle_event R e s ev = Inr s' \<and> \<not> color_selection s \<and>
    stack (board s') = (p, m) # stack (board s) \<and>
    piece_at R (cur (board s)) (to_square m) = Some cp \<and>
    color cp \<noteq> turn R (cur (board s))"
  then have t: "turn R (cur (board s)) = (\<not> color cp)" by auto
  from a step_pushes [of R e s ev s' p m]
  have c: "captured_w s' = captured_w (record_capture R s (to_square m))"
    "captured_b s' = captured_b (record_capture R s (to_square m))" by auto
  from a have pa: "piece_at R (cur (board s)) (to_square m) = Some cp" by simp
  from tally_after_capture(1,2) [OF c pa]
  show "capture_tally (turn R (cur (board s))) s' =
        capture_tally (turn R (cur (board s))) s @ [symbol_upper cp]"
    and "capture_tally (color cp) s' = capture_tally (color cp) s"
    unfolding t by simp_all
next
  assume a: "stack (board (frame_update R e s)) = (p, m) # stack (board s) \<and>
    piece_at R (cur (board s)) (to_square m) = Some cp \<and>
    color cp \<noteq> turn R (cur (board s))"
  then have t: "turn R (cur (board s)) = (\<not> color cp)" by auto
  from a frame_pushes [of R e s p m]
  have c: "captured_w (frame_update R e s) = captured_w (record_capture R s (to_square m))"
    "captured_b (frame_update R e s) = captured_b (record_capture R s (to_square m))" by auto
  from a have pa: "piece_at R (cur (board s)) (to_square m) = Some cp" by simp
  from tally_after_capture(1,2) [OF c pa]
  show "capture_tally (turn R (cur (board s))) (frame_update R e s) =
        capture_tally (turn R (cur (board s))) s @ [symbol_upper cp]"
    and "capture_tally (color cp) (frame_update R e s) = capture_tally (color cp) s"
    unfolding t by simp_all
next
  assume a: "\<not> color_selection s \<and> \<not> game_over s \<and> \<not> ai_thinking s \<and>
    selected_square s = Some sel \<and>
    pixel_to_square (player_color s) (mouse_get_pos e) = Some tgt \<and>
    Move sel tgt \<in> set (valid_moves s) \<and>
    turn R (cur (board s)) = WHITE \<and>
    piece_at R (cur (board s)) tgt = Some cp \<and> color cp = BLACK"
  let ?s1 = "clear_selection (apply_human_move R s (Move sel tgt))"
  from a have h: "handle_event R e s (MOUSEBUTTONUP q 1) = Inr ?s1"
    by (intro release_applies) simp_all
  have c: "captured_w ?s1 = captured_w (record_capture R s tgt)"
    "captured_b ?s1 = captured_b (record_capture R s tgt)"
    by (simp_all add: clear_selection_frame apply_human_move_frame Move_def)
  from a have pa: "piece_at R (cur (board s)) tgt = Some cp" by simp
  from a have k: "color cp = BLACK" by simp
  from tally_after_capture(1,2) [OF c pa] k
  have "capture_tally WHITE ?s1 = capture_tally WHITE s @ [symbol_upper cp]"
    "capture_tally BLACK ?s1 = capture_tally BLACK s"
    by (simp_all add: WHITE_def BLACK_def)
  moreover have "board ?s1 = push R (board s) (Move sel tgt)"
    by (simp add: clear_selection_frame apply_human_move_frame)
  ultimately show "\<exists>s1. handle_event R e s (MOUSEBUTTONUP q 1) = Inr s1 \<and>
            board s1 = push R (board s) (Move sel tgt) \<and>
            capture_tally WHITE s1 = capture_tally WHITE s @ [symbol_upper cp] \<and>
            capture_tally BLACK s1 = capture_tally BLACK s"
    using h by blast
next
  assume a: "handle_event R e s ev = Inr s'"
  from handle_event_summary [OF a]
  consider (same) "captured_w s' = captured_w s \<and> captured_b s' = captured_b s"
    | (reset) "captured_w s' = [] \<and> captured_b s' = [] \<and> color_selection s' \<and> board s' = new_board R"
    | (human) m' where "board s' = push R (board s) m'"
        "captured_w s' = captured_w (record_capture R s (to_square m'))"
        "captured_b s' = captured_b (record_capture R s (to_square m'))"
    by blast
  then show "(captured_w s' = captured_w s \<and> captured_b s' = captured_b s) \<or>
      (captured_w s' = [] \<and> captured_b s' = [] \<and> color_selection s' \<and> board s' = new_board R) \<or>
      (\<exists>m1 c1. board s' = push R (board s) m1 \<and>
          piece_at R (cur (board s)) (to_square m1) = Some c1 \<and>
          capture_tally (\<not> color c1) s' = capture_tally (\<not> color c1) s @ [symbol_upper c1] \<and>
          capture_tally (color c1) s' = capture_tally (color c1) s)"
  proof cases
    case same
    then show ?thesis by blast
  next
    case reset
    then show ?thesis by blast
  next
    case human
    show ?thesis
    proof (cases "piece_at R (cur (board s)) (to_square m')")
      case None
      from tally_no_capture [OF human(2,3) None] show ?thesis by blast
    next
      case (Some c1)
      from tally_after_capture(1,2) [OF human(2,3) Some] human(1) Some show ?thesis by blast
    qed
  qed
next
  from frame_update_summary [of R e s]
  consider (same) "captured_w (frame_update R e s) = captured_w s \<and>
      captured_b (frame_update R e s) = captured_b s"
    | (move) m' where "board (frame_update R e s) = push R (board s) m'"
        "captured_w (frame_update R e s) = captured_w (record_capture R s (to_square m'))"
        "captured_b (frame_update R e s) = captured_b (record_capture R s (to_square m'))"
    by blast
  then show "(captured_w (frame_update R e s) = captured_w s \<and>
     captured_b (frame_update R e s) = captured_b s) \<or>
    (\<exists>m1 c1. board (frame_update R e s) = push R (board s) m1 \<and>
        piece_at R (cur (board s)) (to_square m1) = Some c1 \<and>
        capture_tally (\<not> color c1) (frame_update R e s) =
          capture_tally (\<not> color c1) s @ [symbol_upper c1] \<and>
        capture_tally (color c1) (frame_update R e s) = capture_tally (color c1) s)"
  proof cases
    case same
    then show ?thesis by blast
  next
    case move
    show ?thesis
    proof (cases "piece_at R (cur (board s)) (to_square m')")
      case None
      from tally_no_capture [OF move(2,3) None] show ?thesis by blast
    next
      case (Some c1)
      from tally_after_capture(1,2) [OF move(2,3) Some] move(1) Some show ?thesis by blast
    qed
  qed
next
  assume a: "handle_event R e s ev = Inr s' \<and> color_selection s \<and>
    stack (board s') = (p, m) # stack (board s)"
  with step_pushes [of R e s ev s' p m]
  show "m \<in> set (legal_moves R (cur (board s)))" "captured_w s' = captured_w s"
    "captured_b s' = captured_b s"
    by auto
next
  assume "run R (init_game R ei) frs = Inr s \<and> color_selection s"
  with run_inv [OF init_inv, of R ei frs] show "board s = new_board R"
    by (auto simp: game_inv_def)
qed

text \<open>
  On the small table: the human's Kxg1 takes the knight, and \<open>N\<close> is appended to White's
  tally; the engine's Qxa3 takes the pawn, and \<open>P\<close> is appended to Black's tally.
\<close>

theorem C2_capture_tally_witness:
  "\<not> color_selection st_selected \<and> \<not> game_over st_selected \<and> \<not> ai_thinking st_selected \<and>
   selected_square st_selected = Some 7 \<and>
   pixel_to_square (player_color st_selected) (mouse_get_pos (env_at (530, 580) None 2)) = Some 6 \<and>
   Move 7 6 \<in> set (valid_moves st_selected) \<and>
   turn toy_rules (cur (board st_selected)) = WHITE \<and>
   piece_at toy_rules (cur (board st_selected)) 6 = Some (mk_piece False KNIGHT) \<and>
   color (mk_piece False KNIGHT) = BLACK \<and>
   (\<exists>s1. handle_event toy_rules (env_at (530, 580) None 2) st_selected
           (MOUSEBUTTONUP (530, 580) 1) = Inr s1 \<and>
         board s1 = push toy_rules (board st_selected) (Move 7 6) \<and>
         capture_tally WHITE s1 = [''N''] \<and> capture_tally BLACK s1 = [] \<and>
         captured_b s1 = [''N''] \<and> captured_w s1 = []) \<and>
   stack (board (frame_update toy_rules (env_at (0, 0) (Some (Move 8 16)) 3) st_thinking)) =
     (T1, Move 8 16) # stack (board st_thinking) \<and>
   piece_at toy_rules (cur (board st_thinking)) (to_square (Move 8 16)) =
     Some (mk_piece True PAWN) \<and>
   color (mk_piece True PAWN) \<noteq> turn toy_rules (cur (board st_thinking)) \<and>
   capture_tally BLACK (frame_update toy_rules (env_at (0, 0) (Some (Move 8 16)) 3) st_thinking) =
     [''P''] \<and>
   capture_tally WHITE (frame_update toy_rules (env_at (0, 0) (Some (Move 8 16)) 3) st_thinking) =
     [''N'']"
proof -
  let ?e = "env_at (530, 580) None 2"
  note t = C2_capture_tally [where R = toy_rules and e = ?e and s = st_selected
      and sel = 7 and tgt = 6 and q = "(530, 580)" and cp = "mk_piece False KNIGHT"]
  have px: "pixel_to_square (player_color st_selected) (mouse_get_pos ?e) = Some 6"
    by (simp add: st_selected_facts env_at_def toy_pixels)
  have vm: "Move 7 6 \<in> set (valid_moves st_selected)" by (simp add: st_selected_facts)
  have ck: "color (mk_piece False KNIGHT) = BLACK" by (simp add: mk_piece_def BLACK_def)
  have su: "symbol_upper (mk_piece False KNIGHT) = ''N''"
    by (simp add: symbol_upper_def mk_piece_def)
  have t0: "capture_tally WHITE st_selected = []" "capture_tally BLACK st_selected = []"
    by (simp_all add: capture_tally_def st_selected_facts)
  from t st_selected_facts(1-4,14,15) px vm ck
  obtain s1 where s1: "handle_event toy_rules ?e st_selected (MOUSEBUTTONUP (530, 580) 1) = Inr s1"
    "board s1 = push toy_rules (board st_selected) (Move 7 6)"
    "capture_tally WHITE s1 = capture_tally WHITE st_selected @ [symbol_upper (mk_piece False KNIGHT)]"
    "capture_tally BLACK s1 = capture_tally BLACK st_selected"
    by blast
  from s1(3,4) su t0 have c1: "capture_tally WHITE s1 = [''N'']" "capture_tally BLACK s1 = []"
    by simp_all
  then have c1': "captured_b s1 = [''N'']" "captured_w s1 = []"
    by (simp_all add: capture_tally_def WHITE_def BLACK_def)
  let ?a = "env_at (0, 0) (Some (Move 8 16)) 3"
  note u = C2_capture_tally [where R = toy_rules and e = ?a and s = st_thinking
      and p = T1 and m = "Move 8 16" and cp = "mk_piece True PAWN"]
  have st: "stack (board (frame_update toy_rules ?a st_thinking)) =
      (T1, Move 8 16) # stack (board st_thinking)" by code_simp
  have pa: "piece_at toy_rules (cur (board st_thinking)) (to_square (Move 8 16)) =
      Some (mk_piece True PAWN)" by code_simp
  have ct: "color (mk_piece True PAWN) \<noteq> turn toy_rules (cur (board st_thinking))"
    by (simp add: st_thinking_facts mk_piece_def BLACK_def)
  have sp: "symbol_upper (mk_piece True PAWN) = ''P''"
    by (simp add: symbol_upper_def mk_piece_def)
  have cc: "color (mk_piece True PAWN) = WHITE" by (simp add: mk_piece_def WHITE_def)
  have t1: "capture_tally BLACK st_thinking = []" "capture_tally WHITE st_thinking = [''N'']"
    by code_simp+
  from u st pa ct
  have "capture_tally (turn toy_rules (cur (board st_thinking))) (frame_update toy_rules ?a st_thinking) =
        capture_tally (turn toy_rules (cur (board st_thinking))) st_thinking @
          [symbol_upper (mk_piece True PAWN)]"
    "capture_tally (color (mk_piece True PAWN)) (frame_update toy_rules ?a st_thinking) =
        capture_tally (color (mk_piece True PAWN)) st_thinking"
    by blast+
  with sp cc t1 have c2: "capture_tally BLACK (frame_update toy_rules ?a st_thinking) = [''P'']"
    "capture_tally WHITE (frame_update toy_rules ?a st_thinking) = [''N'']"
    by (simp_all add: st_thinking_facts)
  from st_selected_facts(1-4,14,15) px vm ck s1(1,2) c1 c1' st pa ct c2
  show ?thesis by blast
qed

lemma run_projr:
  "run R (init_game R ei) frs = Inr (projr (run R (init_game R ei) frs))"
  using run_inv [OF init_inv, of R ei frs] by auto

lemma handle_event_projr:
  assumes "run R (init_game R ei) frs = Inr s"
  shows "handle_event R e s ev = Inr (projr (handle_event R e s ev))"
proof -
  from run_inv [OF init_inv, of R ei frs] assms have "game_inv R s" by auto
  from handle_event_inv [OF this, of e ev] show ?thesis by auto
qed

lemma st_flag_facts:
  "game_over st_flag" "sel_nonempty st_flag" "selected_square st_flag = Some 7"
  "valid_moves st_flag = [Move 7 6]" "selected_piece st_flag = Some ''wk''"
  "selected_piece_pos st_flag = Some (580, 580)"
  "sequencer st_flag = GameOver" "winner st_flag = Some ''Black''"
  "player_color st_flag = Some True" "turn toy_rules (cur (board st_flag)) = True"
  "\<not> color_selection st_flag" "\<not> ai_thinking st_flag"
  by code_simp+

text \<open>
  C9, on the code: the human, as White, presses on the king and holds it; White's
  countdown runs out in that frame. The state at the end of the frame has the game over,
  and the selected square, its destinations, the dragged piece and the drag position are
  all still set. A release is then ignored (the guard \<open>not self.game_over\<close>), and a pointer
  move still updates the drag position. Every other way to end the game, and the undo
  and the reset, leave the selection empty: \<open>selection_in_runs\<close> below.
\<close>

theorem C9_selection_survives_flag_fall:
  "run toy_rules (init_game toy_rules e0) game_flag = Inr st_flag \<and>
   game_over st_flag \<and> sequencer st_flag = GameOver \<and>
   sel_nonempty st_flag \<and>
   selected_square st_flag = Some 7 \<and> valid_moves st_flag = [Move 7 6] \<and>
   selected_piece st_flag = Some ''wk'' \<and> selected_piece_pos st_flag = Some (580, 580) \<and>
   handle_event toy_rules (env_at (530, 580) None 701) st_flag (MOUSEBUTTONUP (530, 580) 1) =
     Inr st_flag \<and>
   selected_piece_pos (projr (handle_event toy_rules (env_at (100, 100) None 701) st_flag
     (MOUSEMOTION (100, 100)))) = Some (100, 100)"
proof -
  have r: "run toy_rules (init_game toy_rules e0) game_flag = Inr st_flag"
    unfolding st_flag_def by (rule run_projr)
  have u: "handle_event toy_rules (env_at (530, 580) None 701) st_flag
      (MOUSEBUTTONUP (530, 580) 1) = Inr st_flag"
    by (simp add: handle_event_simps st_flag_facts)
  have m: "selected_piece_pos (projr (handle_event toy_rules (env_at (100, 100) None 701) st_flag
     (MOUSEMOTION (100, 100)))) = Some (100, 100)"
    by (simp add: handle_event_simps st_flag_facts str_truthy_def)
  from r u m st_flag_facts show ?thesis by simp
qed

lemma winner_frames:
  "winner (apply_human_move R s m) =
     (if is_game_over R (push R (board s) m) \<and> is_checkmate R (make_move R (cur (board s)) m)
      then Some (mate_winner R (push R (board s) m)) else winner s)"
  "winner (apply_ai_move R s m) =
     (if is_game_over R (push R (board s) m) \<and> is_checkmate R (make_move R (cur (board s)) m)
      then Some (mate_winner R (push R (board s) m)) else winner s)"
  by (simp_all add: apply_human_move_def apply_ai_move_def Let_def record_capture_frame)

lemma terminal_move_outcome:
  assumes "is_game_over R (push R (board s) m)"
  shows "game_over (apply_human_move R s m) \<and> checkmate_popup (apply_human_move R s m) \<and>
         game_over (apply_ai_move R s m) \<and> checkmate_popup (apply_ai_move R s m) \<and>
         (is_checkmate R (make_move R (cur (board s)) m) \<longrightarrow>
            winner (apply_human_move R s m) =
              Some (if turn R (make_move R (cur (board s)) m) then ''Black'' else ''White'') \<and>
            winner (apply_ai_move R s m) =
              Some (if turn R (make_move R (cur (board s)) m) then ''Black'' else ''White'')) \<and>
         (\<not> is_checkmate R (make_move R (cur (board s)) m) \<longrightarrow>
            winner (apply_human_move R s m) = winner s \<and>
            winner (apply_ai_move R s m) = winner s \<and>
            popup_text (apply_human_move R s m) =
              (case winner s of
                 None \<Rightarrow> Some ''Draw!''
               | Some w \<Rightarrow> if w \<noteq> [] then Some (w @ '' wins!'') else Some ''Draw!'') \<and>
            popup_text (apply_ai_move R s m) =
              (case winner s of
                 None \<Rightarrow> Some ''Draw!''
               | Some w \<Rightarrow> if w \<noteq> [] then Some (w @ '' wins!'') else Some ''Draw!''))"
  using assms
  by (simp add: winner_frames apply_human_move_frame apply_ai_move_frame popup_text_def
        mate_winner_def)

lemma st_stale_facts:
  "cur (board st_stale) = T5" "is_game_over toy_rules (board st_stale)"
  "is_checkmate toy_rules (cur (board st_stale)) = False"
  "game_over st_stale" "checkmate_popup st_stale" "winner st_stale = Some ''Black''"
  "popup_text st_stale = Some ''Black wins!''"
  "move_history st_stale = [''Kxg1'', ''Qe2'', ''Kh1'', ''Qf2'']"
  by code_simp+

text \<open>
  C7, on the code: the engine mates (the winner is set to Black), the human undoes the
  last two plies with the \<open>u\<close> key, which leaves the winner set, and the game then ends
  in a stalemate. The game is over and it is not a checkmate, yet the winner is still
  Black and the popup announces ``Black wins!'', not a draw. \<open>terminal_move_outcome\<close>
  gives the general picture: at a checkmate the winner is the side that is not to move
  in the new position; at any other end the winner keeps its earlier value, so the popup
  announces a draw only if no winner was set before.
\<close>

theorem C7_draw_announced_as_win:
  "run toy_rules (init_game toy_rules e0) game_stale = Inr st_stale \<and>
   move_history st_stale = [''Kxg1'', ''Qe2'', ''Kh1'', ''Qf2''] \<and>
   cur (board st_stale) = T5 \<and>
   is_game_over toy_rules (board st_stale) \<and>
   is_checkmate toy_rules (cur (board st_stale)) = False \<and>
   game_over st_stale \<and> checkmate_popup st_stale \<and>
   winner st_stale = Some ''Black'' \<and>
   popup_text st_stale = Some ''Black wins!''"
proof -
  have r: "run toy_rules (init_game toy_rules e0) game_stale = Inr st_stale"
    unfolding st_stale_def by (rule run_projr)
  from r st_stale_facts show ?thesis by simp
qed

lemma mid_frame_inv:
  assumes "run R (init_game R ei) frs = Inr s0"
  shows "\<exists>s. run_events R s0 evs = Inr s \<and> game_inv R s"
proof -
  from run_inv [OF init_inv, of R ei frs] assms have "game_inv R s0" by auto
  then show ?thesis by (rule run_events_inv)
qed

lemma run_events_projr:
  assumes "run R (init_game R ei) frs = Inr s0"
  shows "run_events R s0 evs = Inr (projr (run_events R s0 evs))"
  using mid_frame_inv [OF assms, of evs] by auto

text \<open>
  C3. Every run from the start returns a state, never an exception, and so does every
  batch of events handled after it; in all these states, at the end of a frame or
  between two events of a frame, the history is as long as the board's move stack. With
  fewer than two entries the \<open>u\<close> key changes nothing. In any of these states with at
  least two entries, whatever the sequencer is in (the human's turn, the engine's turn
  with \<open>ai_thinking\<close> set by a release earlier in the same batch, or the game over), the
  key returns, takes the two most recent moves off the board, whose position is again
  the one in which the earlier of the two was played (so a board reached by two pushes is
  the board before them), drops the last two entries of the history, leaves the selection
  empty, clears \<open>game_over\<close>, \<open>checkmate_popup\<close> and \<open>ai_thinking\<close>, and so leaves the
  sequencer in the human's turn.
\<close>

theorem C3_history_and_undo:
  "(\<exists>s1. run R (init_game R ei) frs = Inr s1 \<and>
         length (move_history s1) = length (stack (board s1))) \<and>
   (run R (init_game R ei) frs = Inr s0 \<longrightarrow>
      (\<exists>s1. run_events R s0 evs = Inr s1 \<and>
            length (move_history s1) = length (stack (board s1)))) \<and>
   (length (move_history s) < 2 \<longrightarrow> handle_event R e s (KEYDOWN K_u) = Inr s) \<and>
   (run R (init_game R ei) frs = Inr s0 \<and> run_events R s0 evs = Inr s \<and>
    2 \<le> length (move_history s) \<longrightarrow>
      (\<exists>s' p1 m1 p2 m2 rest.
         handle_event R e s (KEYDOWN K_u) = Inr s' \<and>
         stack (board s) = (p1, m1) # (p2, m2) # rest \<and>
         board s' = \<lparr>cur = p2, stack = rest\<rparr> \<and>
         (\<forall>b ma mb. board s = push R (push R b ma) mb \<longrightarrow> board s' = b) \<and>
         move_history s' = butlast (butlast (move_history s)) \<and>
         length (move_history s') = length (move_history s) - 2 \<and>
         \<not> sel_nonempty s' \<and>
         \<not> game_over s' \<and> \<not> checkmate_popup s' \<and> \<not> ai_thinking s' \<and>
         sequencer s' = HumanTurn))"
proof (intro conjI impI)
  from run_inv [OF init_inv, of R ei frs]
  show "\<exists>s1. run R (init_game R ei) frs = Inr s1 \<and>
         length (move_history s1) = length (stack (board s1))"
    by (auto simp: game_inv_def)
next
  assume "run R (init_game R ei) frs = Inr s0"
  from mid_frame_inv [OF this, of evs]
  show "\<exists>s1. run_events R s0 evs = Inr s1 \<and>
            length (move_history s1) = length (stack (board s1))"
    by (auto simp: game_inv_def)
next
  assume "length (move_history s) < 2"
  then show "handle_event R e s (KEYDOWN K_u) = Inr s"
    by (simp add: handle_event_def key_down_def)
next
  assume a: "run R (init_game R ei) frs = Inr s0 \<and> run_events R s0 evs = Inr s \<and>
    2 \<le> length (move_history s)"
  then have r: "run R (init_game R ei) frs = Inr s0" by simp
  from mid_frame_inv [OF r, of evs] a have inv: "game_inv R s" by auto
  from a inv have nc: "\<not> color_selection s"
    by (auto simp: game_inv_def new_board_def)
  from a inv obtain p1 m1 p2 m2 rest where st: "stack (board s) = (p1, m1) # (p2, m2) # rest"
    by (cases "stack (board s)"; cases "tl (stack (board s))") (auto simp: game_inv_def)
  from a obtain h x y where h: "move_history s = h @ [x, y]"
    by (cases "move_history s" rule: rev_cases; cases "butlast (move_history s)" rule: rev_cases)
       auto
  let ?s' = "s\<lparr>board := \<lparr>cur = p2, stack = rest\<rparr>, move_history := h, game_over := False,
               checkmate_popup := False, ai_thinking := False,
               selected_square := None, valid_moves := [],
               selected_piece := None, selected_piece_pos := None\<rparr>"
  have u: "undo s = Inr ?s'"
    using st h by (simp add: undo_def pop_def list_pop_def butlast_append)
  have ev: "handle_event R e s (KEYDOWN K_u) = Inr ?s'"
    using a nc u by (simp add: handle_event_def key_down_def)
  have rb: "board ?s' = b" if "board s = push R (push R b ma) mb" for b ma mb
  proof -
    from that st have "p2 = cur b" "rest = stack b" by (simp_all add: push_def)
    then show ?thesis by simp
  qed
  have "board ?s' = \<lparr>cur = p2, stack = rest\<rparr>" by simp
  moreover have "move_history ?s' = butlast (butlast (move_history s))"
    using h by (simp add: butlast_append)
  moreover have "length (move_history ?s') = length (move_history s) - 2"
    using h by simp
  moreover have "\<not> sel_nonempty ?s'" by (simp add: sel_nonempty_def)
  moreover have "\<not> game_over ?s'" "\<not> checkmate_popup ?s'" "\<not> ai_thinking ?s'" by simp_all
  moreover have "sequencer ?s' = HumanTurn" using nc by (simp add: sequencer_def)
  ultimately show "\<exists>s' p1 m1 p2 m2 rest.
         handle_event R e s (KEYDOWN K_u) = Inr s' \<and>
         stack (board s) = (p1, m1) # (p2, m2) # rest \<and>
         board s' = \<lparr>cur = p2, stack = rest\<rparr> \<and>
         (\<forall>b ma mb. board s = push R (push R b ma) mb \<longrightarrow> board s' = b) \<and>
         move_history s' = butlast (butlast (move_history s)) \<and>
         length (move_history s') = length (move_history s) - 2 \<and>
         \<not> sel_nonempty s' \<and>
         \<not> game_over s' \<and> \<not> checkmate_popup s' \<and> \<not> ai_thinking s' \<and>
         sequencer s' = HumanTurn"
    using ev st rb by blast
qed

lemma st_Qe2_run: "run toy_rules (init_game toy_rules e0) game_Qe2 = Inr st_Qe2"
  unfolding st_Qe2_def by (rule run_projr)

lemma st_engine_turn_run: "run_events toy_rules st_Qe2 events_Kh1 = Inr st_engine_turn"
  unfolding st_engine_turn_def by (rule run_events_projr [OF st_Qe2_run])

lemma st_engine_turn_facts:
  "ai_thinking st_engine_turn" "\<not> game_over st_engine_turn" "\<not> color_selection st_engine_turn"
  "sequencer st_engine_turn = EngineTurn"
  "move_history st_engine_turn = [''Kxg1'', ''Qe2'', ''Kh1'']"
  "board st_engine_turn =
     push toy_rules (push toy_rules \<lparr>cur = T1, stack = [(T0, Move 7 6)]\<rparr> (Move 8 12)) (Move 6 7)"
  by code_simp+

text \<open>
  Two undos on the small table. After Kxg1 and Qa1 mate the game is over; the undo gives
  the new board, an empty history and the human's turn. After Kxg1 Qe2 and, in the next
  batch of events, Kh1, the engine is about to be asked (\<open>EngineTurn\<close>); the undo in that
  same batch takes Kh1 and Qe2 back, clears \<open>ai_thinking\<close> and gives the human's turn. In
  the state after the colour choice, with no entry, the key does nothing.
\<close>

theorem C3_history_and_undo_witness:
  "run toy_rules (init_game toy_rules e0) game_mated = Inr st_mated \<and>
   run_events toy_rules st_mated [] = Inr st_mated \<and>
   length (move_history st_mated) = 2 \<and>
   length (stack (board st_mated)) = 2 \<and>
   sequencer st_mated = GameOver \<and>
   board st_mated = push toy_rules (push toy_rules (new_board toy_rules) (Move 7 6)) (Move 8 0) \<and>
   (\<exists>s'. handle_event toy_rules (env_at (0, 0) None 5) st_mated (KEYDOWN K_u) = Inr s' \<and>
         board s' = new_board toy_rules \<and> move_history s' = [] \<and>
         sequencer s' = HumanTurn) \<and>
   run toy_rules (init_game toy_rules e0) game_Qe2 = Inr st_Qe2 \<and>
   run_events toy_rules st_Qe2 events_Kh1 = Inr st_engine_turn \<and>
   sequencer st_engine_turn = EngineTurn \<and> ai_thinking st_engine_turn \<and>
   move_history st_engine_turn = [''Kxg1'', ''Qe2'', ''Kh1''] \<and>
   (\<exists>s'. handle_event toy_rules (env_at (0, 0) None 4) st_engine_turn (KEYDOWN K_u) = Inr s' \<and>
         board s' = \<lparr>cur = T1, stack = [(T0, Move 7 6)]\<rparr> \<and>
         move_history s' = [''Kxg1''] \<and>
         \<not> ai_thinking s' \<and> sequencer s' = HumanTurn) \<and>
   length (move_history st_white) < 2 \<and>
   handle_event toy_rules e0 st_white (KEYDOWN K_u) = Inr st_white"
proof -
  note t = C3_history_and_undo [where R = toy_rules and ei = e0 and frs = game_mated
      and ?s0.0 = st_mated and evs = "[]" and s = st_mated and e = "env_at (0, 0) None 5"]
  have l: "length (move_history st_mated) = 2" "length (stack (board st_mated)) = 2"
    by (simp_all add: st_mated_facts)
  have b: "board st_mated =
      push toy_rules (push toy_rules (new_board toy_rules) (Move 7 6)) (Move 8 0)"
    by code_simp
  have re: "run_events toy_rules st_mated [] = Inr st_mated" by simp
  have "run toy_rules (init_game toy_rules e0) game_mated = Inr st_mated \<and>
        run_events toy_rules st_mated [] = Inr st_mated \<and>
        2 \<le> length (move_history st_mated)"
    using st_mated_run l by simp
  with t obtain s' where s': "handle_event toy_rules (env_at (0, 0) None 5) st_mated (KEYDOWN K_u) = Inr s'"
    "\<forall>b ma mb. board st_mated = push toy_rules (push toy_rules b ma) mb \<longrightarrow> board s' = b"
    "move_history s' = butlast (butlast (move_history st_mated))"
    "sequencer s' = HumanTurn"
    by blast
  from s'(2) b have b': "board s' = new_board toy_rules" by blast
  from s'(3) have h': "move_history s' = []" by (simp add: st_mated_facts)
  note u = C3_history_and_undo [where R = toy_rules and ei = e0 and frs = game_Qe2
      and ?s0.0 = st_Qe2 and evs = events_Kh1 and s = st_engine_turn
      and e = "env_at (0, 0) None 4"]
  have "run toy_rules (init_game toy_rules e0) game_Qe2 = Inr st_Qe2 \<and>
        run_events toy_rules st_Qe2 events_Kh1 = Inr st_engine_turn \<and>
        2 \<le> length (move_history st_engine_turn)"
    using st_Qe2_run st_engine_turn_run by (simp add: st_engine_turn_facts)
  with u obtain s2 where s2:
    "handle_event toy_rules (env_at (0, 0) None 4) st_engine_turn (KEYDOWN K_u) = Inr s2"
    "\<forall>b ma mb. board st_engine_turn = push toy_rules (push toy_rules b ma) mb \<longrightarrow> board s2 = b"
    "move_history s2 = butlast (butlast (move_history st_engine_turn))"
    "\<not> ai_thinking s2" "sequencer s2 = HumanTurn"
    by blast
  from s2(2) st_engine_turn_facts(6)
  have b2: "board s2 = \<lparr>cur = T1, stack = [(T0, Move 7 6)]\<rparr>" by blast
  from s2(3) have h2: "move_history s2 = [''Kxg1'']" by (simp add: st_engine_turn_facts)
  note t' = C3_history_and_undo [where R = toy_rules and s = st_white and e = e0]
  have w: "length (move_history st_white) < 2" by code_simp
  with t' have w': "handle_event toy_rules e0 st_white (KEYDOWN K_u) = Inr st_white" by blast
  from st_mated_run re l st_mated_facts(14) b s'(1,4) b' h'
    st_Qe2_run st_engine_turn_run st_engine_turn_facts(1,4,5) s2(1,4,5) b2 h2 w w'
  show ?thesis by blast
qed

lemma ai_step_clock:
  "white_time (ai_step R e s) = white_time s"
  "black_time (ai_step R e s) = black_time s"
  "last_time (ai_step R e s) = last_time s"
  "game_started (ai_step R e s) = game_started s"
  "color_selection (ai_step R e s) = color_selection s"
proof -
  consider "ai_step R e s = s" | "ai_step R e s = s\<lparr>ai_thinking := False\<rparr>"
    | m where "ai_step R e s = (apply_ai_move R s m)\<lparr>ai_thinking := False\<rparr>"
    using ai_step_cases [of R e s] by blast
  then have "white_time (ai_step R e s) = white_time s \<and>
    black_time (ai_step R e s) = black_time s \<and>
    last_time (ai_step R e s) = last_time s \<and>
    game_started (ai_step R e s) = game_started s \<and>
    color_selection (ai_step R e s) = color_selection s"
    by cases (simp_all add: apply_ai_move_frame)
  then show "white_time (ai_step R e s) = white_time s"
    "black_time (ai_step R e s) = black_time s"
    "last_time (ai_step R e s) = last_time s"
    "game_started (ai_step R e s) = game_started s"
    "color_selection (ai_step R e s) = color_selection s"
    by simp_all
qed

lemma frame_end_expiry:
  assumes "game_inv R s"
  shows "game_started (frame_update R e s) \<and>
           (white_time (frame_update R e s) \<le> 0 \<or> black_time (frame_update R e s) \<le> 0) \<longrightarrow>
         game_over (frame_update R e s) \<and> checkmate_popup (frame_update R e s)"
proof (cases "color_selection s")
  case True
  with assms show ?thesis by (simp add: frame_update_def game_inv_def)
next
  case False
  let ?a = "ai_step R e s"
  have f: "frame_update R e s = update_timer R (time_now e) ?a"
    using False by (simp add: frame_update_def)
  have ia: "game_inv R ?a" using assms False by (rule ai_step_inv)
  have fi: "game_inv R (frame_update R e s)" using assms by (rule frame_update_inv)
  then have pg: "checkmate_popup (frame_update R e s) = game_over (frame_update R e s)"
    by (simp add: game_inv_def)
  have st: "game_started ?a" using ia False by (simp add: game_inv_def ai_step_clock)
  show ?thesis
  proof (cases "game_over ?a")
    case True
    then have "game_over (frame_update R e s)" unfolding f by (rule update_timer_over)
    with pg show ?thesis by simp
  next
    case False
    with st update_timer_clock [of ?a R "time_now e"]
    have "game_over (frame_update R e s) =
        (white_time (frame_update R e s) \<le> 0 \<or> black_time (frame_update R e s) \<le> 0)"
      unfolding f by blast
    with pg show ?thesis by simp
  qed
qed

lemma run_expiry:
  assumes "game_inv R s0"
    and "game_started s0 \<and> (white_time s0 \<le> 0 \<or> black_time s0 \<le> 0) \<longrightarrow>
         game_over s0 \<and> checkmate_popup s0"
    and "run R s0 frs = Inr s"
  shows "game_started s \<and> (white_time s \<le> 0 \<or> black_time s \<le> 0) \<longrightarrow>
         game_over s \<and> checkmate_popup s"
  using assms
proof (induction frs arbitrary: s0)
  case Nil
  then show ?case by simp
next
  case (Cons fr frs)
  show ?case
  proof (cases "running s0")
    case False
    with Cons.prems show ?thesis by simp
  next
    case True
    from run_events_inv [OF Cons.prems(1), of "fst fr"]
    obtain s1 where s1: "run_events R s0 (fst fr) = Inr s1" "game_inv R s1" by blast
    let ?s2 = "frame_update R (snd fr) s1"
    have rf: "run_frame R s0 fr = Inr ?s2" using s1(1) by (simp add: run_frame_def)
    have i2: "game_inv R ?s2" using s1(2) by (rule frame_update_inv)
    have p2: "game_started ?s2 \<and> (white_time ?s2 \<le> 0 \<or> black_time ?s2 \<le> 0) \<longrightarrow>
         game_over ?s2 \<and> checkmate_popup ?s2"
      using s1(2) by (rule frame_end_expiry)
    from Cons.prems(3) True rf have "run R ?s2 frs = Inr s" by simp
    from Cons.IH [OF i2 p2 this] show ?thesis .
  qed
qed

text \<open>
  C5, amended. \<open>frame_update\<close> is what every frame does after its events: the engine's
  step, then \<open>update_timer\<close>, whatever the sequencer is doing; and every frame of a run
  is the events followed by it. In a frame outside the colour selection with the game
  started and not over once the engine's step is done (the engine may or may not have
  moved, the human may be holding a piece), exactly one countdown changes, that of the
  side then to move: it is reduced by the time elapsed since the last reading, a strict
  decrease whenever the clock has advanced, and the other countdown is untouched. In the
  same frame the game is over exactly if a countdown is now at or below zero; then the
  popup is shown and the winner is Black if White's countdown is at or below zero, and
  White if only Black's is. In the colour selection, before the start, or with the game
  over after the engine's step, the frame changes no countdown. In every state of a run
  the game has started exactly when the colour selection is over, and at the end of every
  frame of a started game a countdown at or below zero means the game is over and the
  popup is shown.
\<close>

theorem C5_frame_clock:
  "(\<not> color_selection s \<and> game_started s \<and> \<not> game_over (ai_step R e s) \<longrightarrow>
      (turn R (cur (board (ai_step R e s))) = WHITE \<longrightarrow>
         white_time (frame_update R e s) = white_time s - (time_now e - last_time s) \<and>
         black_time (frame_update R e s) = black_time s) \<and>
      (turn R (cur (board (ai_step R e s))) = BLACK \<longrightarrow>
         black_time (frame_update R e s) = black_time s - (time_now e - last_time s) \<and>
         white_time (frame_update R e s) = white_time s) \<and>
      (last_time s < time_now e \<longrightarrow>
         (if turn R (cur (board (ai_step R e s))) = WHITE
          then white_time (frame_update R e s) < white_time s \<and>
               black_time (frame_update R e s) = black_time s
          else black_time (frame_update R e s) < black_time s \<and>
               white_time (frame_update R e s) = white_time s)) \<and>
      last_time (frame_update R e s) = time_now e \<and>
      game_over (frame_update R e s) =
        (white_time (frame_update R e s) \<le> 0 \<or> black_time (frame_update R e s) \<le> 0) \<and>
      (white_time (frame_update R e s) \<le> 0 \<longrightarrow>
         winner (frame_update R e s) = Some ''Black'' \<and> checkmate_popup (frame_update R e s)) \<and>
      (0 < white_time (frame_update R e s) \<and> black_time (frame_update R e s) \<le> 0 \<longrightarrow>
         winner (frame_update R e s) = Some ''White'' \<and> checkmate_popup (frame_update R e s)) \<and>
      (0 < white_time (frame_update R e s) \<and> 0 < black_time (frame_update R e s) \<longrightarrow>
         winner (frame_update R e s) = winner (ai_step R e s) \<and>
         checkmate_popup (frame_update R e s) = checkmate_popup (ai_step R e s))) \<and>
   (color_selection s \<or> \<not> game_started s \<or> game_over (ai_step R e s) \<longrightarrow>
      white_time (frame_update R e s) = white_time s \<and>
      black_time (frame_update R e s) = black_time s \<and>
      last_time (frame_update R e s) = last_time s) \<and>
   (run_frame R s fr = Inr s' \<longrightarrow>
      (\<exists>s1. run_events R s (fst fr) = Inr s1 \<and> s' = frame_update R (snd fr) s1)) \<and>
   (run R (init_game R ei) frs = Inr s \<longrightarrow>
      game_started s = (\<not> color_selection s) \<and>
      (game_started s \<and> (white_time s \<le> 0 \<or> black_time s \<le> 0) \<longrightarrow>
         game_over s \<and> checkmate_popup s)) \<and>
   (run R (init_game R ei) frs = Inr s0 \<and> run_events R s0 evs = Inr s \<longrightarrow>
      game_started s = (\<not> color_selection s))"
proof (intro conjI)
  show "\<not> color_selection s \<and> game_started s \<and> \<not> game_over (ai_step R e s) \<longrightarrow>
      (turn R (cur (board (ai_step R e s))) = WHITE \<longrightarrow>
         white_time (frame_update R e s) = white_time s - (time_now e - last_time s) \<and>
         black_time (frame_update R e s) = black_time s) \<and>
      (turn R (cur (board (ai_step R e s))) = BLACK \<longrightarrow>
         black_time (frame_update R e s) = black_time s - (time_now e - last_time s) \<and>
         white_time (frame_update R e s) = white_time s) \<and>
      (last_time s < time_now e \<longrightarrow>
         (if turn R (cur (board (ai_step R e s))) = WHITE
          then white_time (frame_update R e s) < white_time s \<and>
               black_time (frame_update R e s) = black_time s
          else black_time (frame_update R e s) < black_time s \<and>
               white_time (frame_update R e s) = white_time s)) \<and>
      last_time (frame_update R e s) = time_now e \<and>
      game_over (frame_update R e s) =
        (white_time (frame_update R e s) \<le> 0 \<or> black_time (frame_update R e s) \<le> 0) \<and>
      (white_time (frame_update R e s) \<le> 0 \<longrightarrow>
         winner (frame_update R e s) = Some ''Black'' \<and> checkmate_popup (frame_update R e s)) \<and>
      (0 < white_time (frame_update R e s) \<and> black_time (frame_update R e s) \<le> 0 \<longrightarrow>
         winner (frame_update R e s) = Some ''White'' \<and> checkmate_popup (frame_update R e s)) \<and>
      (0 < white_time (frame_update R e s) \<and> 0 < black_time (frame_update R e s) \<longrightarrow>
         winner (frame_update R e s) = winner (ai_step R e s) \<and>
         checkmate_popup (frame_update R e s) = checkmate_popup (ai_step R e s))"
  proof
    assume a: "\<not> color_selection s \<and> game_started s \<and> \<not> game_over (ai_step R e s)"
    let ?a = "ai_step R e s"
    have f: "frame_update R e s = update_timer R (time_now e) ?a"
      using a by (simp add: frame_update_def)
    note u = update_timer_clock [of ?a R "time_now e", unfolded ai_step_clock, folded f]
    from u a have k: "(turn R (cur (board ?a)) = WHITE \<longrightarrow>
         white_time (frame_update R e s) = white_time s - (time_now e - last_time s) \<and>
         black_time (frame_update R e s) = black_time s) \<and>
      (turn R (cur (board ?a)) = BLACK \<longrightarrow>
         black_time (frame_update R e s) = black_time s - (time_now e - last_time s) \<and>
         white_time (frame_update R e s) = white_time s) \<and>
      (last_time s < time_now e \<longrightarrow>
         (if turn R (cur (board ?a)) = WHITE
          then white_time (frame_update R e s) < white_time s
          else black_time (frame_update R e s) < black_time s)) \<and>
      last_time (frame_update R e s) = time_now e \<and>
      game_over (frame_update R e s) =
        (white_time (frame_update R e s) \<le> 0 \<or> black_time (frame_update R e s) \<le> 0) \<and>
      (white_time (frame_update R e s) \<le> 0 \<longrightarrow>
         winner (frame_update R e s) = Some ''Black'' \<and> checkmate_popup (frame_update R e s)) \<and>
      (0 < white_time (frame_update R e s) \<and> black_time (frame_update R e s) \<le> 0 \<longrightarrow>
         winner (frame_update R e s) = Some ''White'' \<and> checkmate_popup (frame_update R e s)) \<and>
      (0 < white_time (frame_update R e s) \<and> 0 < black_time (frame_update R e s) \<longrightarrow>
         winner (frame_update R e s) = winner ?a \<and>
         checkmate_popup (frame_update R e s) = checkmate_popup ?a)"
      by blast
    have s3: "last_time s < time_now e \<longrightarrow>
         (if turn R (cur (board ?a)) = WHITE
          then white_time (frame_update R e s) < white_time s \<and>
               black_time (frame_update R e s) = black_time s
          else black_time (frame_update R e s) < black_time s \<and>
               white_time (frame_update R e s) = white_time s)"
      using k by (auto simp: WHITE_def BLACK_def)
    from k s3 show "(turn R (cur (board ?a)) = WHITE \<longrightarrow>
         white_time (frame_update R e s) = white_time s - (time_now e - last_time s) \<and>
         black_time (frame_update R e s) = black_time s) \<and>
      (turn R (cur (board ?a)) = BLACK \<longrightarrow>
         black_time (frame_update R e s) = black_time s - (time_now e - last_time s) \<and>
         white_time (frame_update R e s) = white_time s) \<and>
      (last_time s < time_now e \<longrightarrow>
         (if turn R (cur (board ?a)) = WHITE
          then white_time (frame_update R e s) < white_time s \<and>
               black_time (frame_update R e s) = black_time s
          else black_time (frame_update R e s) < black_time s \<and>
               white_time (frame_update R e s) = white_time s)) \<and>
      last_time (frame_update R e s) = time_now e \<and>
      game_over (frame_update R e s) =
        (white_time (frame_update R e s) \<le> 0 \<or> black_time (frame_update R e s) \<le> 0) \<and>
      (white_time (frame_update R e s) \<le> 0 \<longrightarrow>
         winner (frame_update R e s) = Some ''Black'' \<and> checkmate_popup (frame_update R e s)) \<and>
      (0 < white_time (frame_update R e s) \<and> black_time (frame_update R e s) \<le> 0 \<longrightarrow>
         winner (frame_update R e s) = Some ''White'' \<and> checkmate_popup (frame_update R e s)) \<and>
      (0 < white_time (frame_update R e s) \<and> 0 < black_time (frame_update R e s) \<longrightarrow>
         winner (frame_update R e s) = winner ?a \<and>
         checkmate_popup (frame_update R e s) = checkmate_popup ?a)"
      by blast
  qed
next
  show "color_selection s \<or> \<not> game_started s \<or> game_over (ai_step R e s) \<longrightarrow>
      white_time (frame_update R e s) = white_time s \<and>
      black_time (frame_update R e s) = black_time s \<and>
      last_time (frame_update R e s) = last_time s"
  proof
    assume a: "color_selection s \<or> \<not> game_started s \<or> game_over (ai_step R e s)"
    show "white_time (frame_update R e s) = white_time s \<and>
      black_time (frame_update R e s) = black_time s \<and>
      last_time (frame_update R e s) = last_time s"
    proof (cases "color_selection s")
      case True
      then show ?thesis by (simp add: frame_update_def)
    next
      case False
      with a have "\<not> game_started (ai_step R e s) \<or> game_over (ai_step R e s)"
        by (simp add: ai_step_clock)
      then have "update_timer R (time_now e) (ai_step R e s) = ai_step R e s"
        by (simp add: update_timer_def)
      with False show ?thesis by (simp add: frame_update_def ai_step_clock)
    qed
  qed
next
  show "run_frame R s fr = Inr s' \<longrightarrow>
      (\<exists>s1. run_events R s (fst fr) = Inr s1 \<and> s' = frame_update R (snd fr) s1)"
    by (auto simp: run_frame_def split: sum.splits)
next
  show "run R (init_game R ei) frs = Inr s \<longrightarrow>
      game_started s = (\<not> color_selection s) \<and>
      (game_started s \<and> (white_time s \<le> 0 \<or> black_time s \<le> 0) \<longrightarrow>
         game_over s \<and> checkmate_popup s)"
  proof
    assume r: "run R (init_game R ei) frs = Inr s"
    with run_inv [OF init_inv, of R ei frs] have "game_inv R s" by auto
    then have g: "game_started s = (\<not> color_selection s)" by (simp add: game_inv_def)
    have p0: "game_started (init_game R ei) \<and>
        (white_time (init_game R ei) \<le> 0 \<or> black_time (init_game R ei) \<le> 0) \<longrightarrow>
        game_over (init_game R ei) \<and> checkmate_popup (init_game R ei)"
      by (simp add: init_game_def)
    from run_expiry [OF init_inv p0 r] g
    show "game_started s = (\<not> color_selection s) \<and>
      (game_started s \<and> (white_time s \<le> 0 \<or> black_time s \<le> 0) \<longrightarrow>
         game_over s \<and> checkmate_popup s)"
      by blast
  qed
next
  show "run R (init_game R ei) frs = Inr s0 \<and> run_events R s0 evs = Inr s \<longrightarrow>
      game_started s = (\<not> color_selection s)"
  proof
    assume a: "run R (init_game R ei) frs = Inr s0 \<and> run_events R s0 evs = Inr s"
    then have "run R (init_game R ei) frs = Inr s0" by simp
    from mid_frame_inv [OF this, of evs] a show "game_started s = (\<not> color_selection s)"
      by (auto simp: game_inv_def)
  qed
qed

text \<open>
  C5, the sentence as written, on the code. The game has started and is not over, White
  to move with 599 seconds. In a frame whose clock reading equals the last one, the game
  is still not over and neither countdown decreases; with a reading before the last one
  (\<open>time.time()\<close> is the wall clock, which can be set back) White's countdown grows to
  600. And in the frame in which the human plays Kxg1 and the engine answers with mate,
  two seconds after the last reading, the game is over before the clock is looked at and
  no countdown changes in that frame.
\<close>

theorem C5_frames_without_decrease:
  "run toy_rules (init_game toy_rules e0) [frame_white] = Inr st_white \<and>
   game_started st_white \<and> \<not> game_over st_white \<and>
   white_time st_white = 599 \<and> black_time st_white = 600 \<and> last_time st_white = 1 \<and>
   run_frame toy_rules st_white ([], env_at (0, 0) None 1) =
     Inr (projr (run_frame toy_rules st_white ([], env_at (0, 0) None 1))) \<and>
   game_over (projr (run_frame toy_rules st_white ([], env_at (0, 0) None 1))) = False \<and>
   white_time (projr (run_frame toy_rules st_white ([], env_at (0, 0) None 1))) = 599 \<and>
   black_time (projr (run_frame toy_rules st_white ([], env_at (0, 0) None 1))) = 600 \<and>
   white_time (projr (run_frame toy_rules st_white ([], env_at (0, 0) None 0))) = 600 \<and>
   run_frame toy_rules st_white (frame_Kxg1 (Some (Move 8 0)) 3) = Inr st_mated \<and>
   game_over st_mated \<and> white_time st_mated = 599 \<and> black_time st_mated = 600"
proof -
  have rw: "run toy_rules (init_game toy_rules e0) [frame_white] = Inr st_white"
    unfolding st_white_def by (rule run_projr)
  have f1: "run_frame toy_rules st_white ([], env_at (0, 0) None 1) =
     Inr (projr (run_frame toy_rules st_white ([], env_at (0, 0) None 1)))"
    by (simp add: run_frame_def)
  have v: "game_over (projr (run_frame toy_rules st_white ([], env_at (0, 0) None 1))) = False"
    "white_time (projr (run_frame toy_rules st_white ([], env_at (0, 0) None 1))) = 599"
    "black_time (projr (run_frame toy_rules st_white ([], env_at (0, 0) None 1))) = 600"
    "white_time (projr (run_frame toy_rules st_white ([], env_at (0, 0) None 0))) = 600"
    by code_simp+
  have rm: "run toy_rules st_white [frame_Kxg1 (Some (Move 8 0)) 3] =
      run toy_rules (init_game toy_rules e0) game_mated"
    by code_simp
  have rn: "running st_white" by code_simp
  have "run_frame toy_rules st_white (frame_Kxg1 (Some (Move 8 0)) 3) = Inr st_mated"
  proof -
    from run_frame_inv [of toy_rules st_white "frame_Kxg1 (Some (Move 8 0)) 3"]
      run_inv [OF init_inv, of toy_rules e0 "[frame_white]"] rw
    obtain s' where s': "run_frame toy_rules st_white (frame_Kxg1 (Some (Move 8 0)) 3) = Inr s'"
      by auto
    with rn have "run toy_rules st_white [frame_Kxg1 (Some (Move 8 0)) 3] = Inr s'" by simp
    with rm st_mated_run have "s' = st_mated" by simp
    with s' show ?thesis by simp
  qed
  with rw f1 v st_white_facts st_mated_facts show ?thesis by simp
qed

lemma st_selected_clock:
  "game_started st_selected" "white_time st_selected = 599" "black_time st_selected = 600"
  "last_time st_selected = 1"
  "game_over (ai_step toy_rules (env_at (580, 580) None 700) st_selected) = False"
  "turn toy_rules (cur (board (ai_step toy_rules (env_at (580, 580) None 700) st_selected))) = WHITE"
  by code_simp+

lemma st_thinking_clock:
  "game_over (ai_step toy_rules (env_at (0, 0) (Some (Move 8 12)) 3) st_thinking) = False"
  "turn toy_rules (cur (board (ai_step toy_rules (env_at (0, 0) (Some (Move 8 12)) 3) st_thinking))) =
     WHITE"
  "move_history (ai_step toy_rules (env_at (0, 0) (Some (Move 8 12)) 3) st_thinking) =
     [''Kxg1'', ''Qe2'']"
  "game_over (ai_step toy_rules (env_at (0, 0) None 3) st_thinking) = False"
  "turn toy_rules (cur (board (ai_step toy_rules (env_at (0, 0) None 3) st_thinking))) = BLACK"
  by code_simp+

text \<open>
  Frames on the small table. The human holds the king while the frame is read 699 seconds
  late: White's countdown is at \<open>-100\<close>, the game is over, Black wins. The engine answers
  Kxg1 with Qe2 in a frame read 2 seconds later: the engine has moved, White is to move
  and is charged the 2 seconds. The engine does not answer: Black stays to move and is
  charged. In the colour selection no countdown moves. The run of the flag fall ends
  with the game over.
\<close>

theorem C5_frame_clock_witness:
  "\<not> color_selection st_selected \<and> game_started st_selected \<and>
   sel_nonempty st_selected \<and>
   \<not> game_over (ai_step toy_rules (env_at (580, 580) None 700) st_selected) \<and>
   turn toy_rules (cur (board (ai_step toy_rules (env_at (580, 580) None 700) st_selected))) = WHITE \<and>
   last_time st_selected < time_now (env_at (580, 580) None 700) \<and>
   white_time (frame_update toy_rules (env_at (580, 580) None 700) st_selected) = - 100 \<and>
   black_time (frame_update toy_rules (env_at (580, 580) None 700) st_selected) = 600 \<and>
   game_over (frame_update toy_rules (env_at (580, 580) None 700) st_selected) \<and>
   winner (frame_update toy_rules (env_at (580, 580) None 700) st_selected) = Some ''Black'' \<and>
   checkmate_popup (frame_update toy_rules (env_at (580, 580) None 700) st_selected) \<and>
   \<not> color_selection st_thinking \<and> game_started st_thinking \<and> ai_thinking st_thinking \<and>
   move_history (ai_step toy_rules (env_at (0, 0) (Some (Move 8 12)) 3) st_thinking) =
     [''Kxg1'', ''Qe2''] \<and>
   turn toy_rules (cur (board (ai_step toy_rules (env_at (0, 0) (Some (Move 8 12)) 3) st_thinking))) =
     WHITE \<and>
   white_time (frame_update toy_rules (env_at (0, 0) (Some (Move 8 12)) 3) st_thinking) = 597 \<and>
   black_time (frame_update toy_rules (env_at (0, 0) (Some (Move 8 12)) 3) st_thinking) = 600 \<and>
   last_time (frame_update toy_rules (env_at (0, 0) (Some (Move 8 12)) 3) st_thinking) = 3 \<and>
   \<not> game_over (frame_update toy_rules (env_at (0, 0) (Some (Move 8 12)) 3) st_thinking) \<and>
   turn toy_rules (cur (board (ai_step toy_rules (env_at (0, 0) None 3) st_thinking))) = BLACK \<and>
   black_time (frame_update toy_rules (env_at (0, 0) None 3) st_thinking) = 598 \<and>
   white_time (frame_update toy_rules (env_at (0, 0) None 3) st_thinking) = 599 \<and>
   color_selection (init_game toy_rules e0) \<and>
   white_time (frame_update toy_rules (env_at (0, 0) None 700) (init_game toy_rules e0)) = 600 \<and>
   black_time (frame_update toy_rules (env_at (0, 0) None 700) (init_game toy_rules e0)) = 600 \<and>
   run toy_rules (init_game toy_rules e0) game_flag = Inr st_flag \<and>
   game_started st_flag \<and> white_time st_flag \<le> 0 \<and>
   game_over st_flag \<and> checkmate_popup st_flag \<and>
   run toy_rules (init_game toy_rules e0) game_Qe2 = Inr st_Qe2 \<and>
   run_events toy_rules st_Qe2 events_Kh1 = Inr st_engine_turn \<and>
   game_started st_engine_turn \<and> \<not> color_selection st_engine_turn \<and>
   (\<exists>s1. run_events toy_rules st_white (fst (frame_Kxg1 (Some (Move 8 0)) 3)) = Inr s1 \<and>
         st_mated = frame_update toy_rules (snd (frame_Kxg1 (Some (Move 8 0)) 3)) s1)"
proof -
  let ?e1 = "env_at (580, 580) None 700"
  let ?e2 = "env_at (0, 0) (Some (Move 8 12)) 3"
  let ?e3 = "env_at (0, 0) None 3"
  let ?e4 = "env_at (0, 0) None 700"
  note a = C5_frame_clock [where R = toy_rules and e = ?e1 and s = st_selected]
  note b = C5_frame_clock [where R = toy_rules and e = ?e2 and s = st_thinking]
  note c = C5_frame_clock [where R = toy_rules and e = ?e3 and s = st_thinking]
  note d = C5_frame_clock [where R = toy_rules and e = ?e4 and s = "init_game toy_rules e0"]
  note f = C5_frame_clock [where R = toy_rules and ei = e0 and frs = game_flag and s = st_flag]
  note g = C5_frame_clock [where R = toy_rules and ei = e0 and frs = game_Qe2 and ?s0.0 = st_Qe2
      and evs = events_Kh1 and s = st_engine_turn]
  note h = C5_frame_clock [where R = toy_rules and s = st_white
      and fr = "frame_Kxg1 (Some (Move 8 0)) 3" and s' = st_mated]
  have tn: "time_now ?e1 = 700" "time_now ?e2 = 3" "time_now ?e3 = 3" by (simp_all add: env_at_def)
  have sn: "sel_nonempty st_selected" by (simp add: sel_nonempty_def st_selected_facts)
  have a0: "\<not> color_selection st_selected \<and> game_started st_selected \<and>
      \<not> game_over (ai_step toy_rules ?e1 st_selected)"
    by (simp add: st_selected_facts st_selected_clock)
  have lt: "last_time st_selected < time_now ?e1" by (simp add: tn st_selected_clock)
  from a a0 st_selected_clock(6)
  have a1: "white_time (frame_update toy_rules ?e1 st_selected) =
      white_time st_selected - (time_now ?e1 - last_time st_selected)"
    "black_time (frame_update toy_rules ?e1 st_selected) = black_time st_selected"
    by blast+
  then have a2: "white_time (frame_update toy_rules ?e1 st_selected) = - 100"
    "black_time (frame_update toy_rules ?e1 st_selected) = 600"
    by (simp_all add: tn st_selected_clock)
  from a a0 have a3: "game_over (frame_update toy_rules ?e1 st_selected) =
      (white_time (frame_update toy_rules ?e1 st_selected) \<le> 0 \<or>
       black_time (frame_update toy_rules ?e1 st_selected) \<le> 0)"
    "white_time (frame_update toy_rules ?e1 st_selected) \<le> 0 \<longrightarrow>
       winner (frame_update toy_rules ?e1 st_selected) = Some ''Black'' \<and>
       checkmate_popup (frame_update toy_rules ?e1 st_selected)"
    by blast+
  with a2 have a4: "game_over (frame_update toy_rules ?e1 st_selected)"
    "winner (frame_update toy_rules ?e1 st_selected) = Some ''Black''"
    "checkmate_popup (frame_update toy_rules ?e1 st_selected)"
    by simp_all
  have b0: "\<not> color_selection st_thinking \<and> game_started st_thinking \<and>
      \<not> game_over (ai_step toy_rules ?e2 st_thinking)"
    by (simp add: st_thinking_facts st_thinking_clock)
  from b b0 st_thinking_clock(2)
  have b1: "white_time (frame_update toy_rules ?e2 st_thinking) =
      white_time st_thinking - (time_now ?e2 - last_time st_thinking)"
    "black_time (frame_update toy_rules ?e2 st_thinking) = black_time st_thinking"
    by blast+
  then have b2: "white_time (frame_update toy_rules ?e2 st_thinking) = 597"
    "black_time (frame_update toy_rules ?e2 st_thinking) = 600"
    by (simp_all add: tn st_thinking_facts)
  from b b0 have b3: "last_time (frame_update toy_rules ?e2 st_thinking) = time_now ?e2"
    "game_over (frame_update toy_rules ?e2 st_thinking) =
      (white_time (frame_update toy_rules ?e2 st_thinking) \<le> 0 \<or>
       black_time (frame_update toy_rules ?e2 st_thinking) \<le> 0)"
    by blast+
  with b2 have b4: "last_time (frame_update toy_rules ?e2 st_thinking) = 3"
    "\<not> game_over (frame_update toy_rules ?e2 st_thinking)"
    by (simp_all add: tn)
  have c0: "\<not> color_selection st_thinking \<and> game_started st_thinking \<and>
      \<not> game_over (ai_step toy_rules ?e3 st_thinking)"
    by (simp add: st_thinking_facts st_thinking_clock)
  from c c0 st_thinking_clock(5)
  have c1: "black_time (frame_update toy_rules ?e3 st_thinking) =
      black_time st_thinking - (time_now ?e3 - last_time st_thinking)"
    "white_time (frame_update toy_rules ?e3 st_thinking) = white_time st_thinking"
    by blast+
  then have c2: "black_time (frame_update toy_rules ?e3 st_thinking) = 598"
    "white_time (frame_update toy_rules ?e3 st_thinking) = 599"
    by (simp_all add: tn st_thinking_facts)
  have d0: "color_selection (init_game toy_rules e0)" by (simp add: init_game_def)
  with d have d1: "white_time (frame_update toy_rules ?e4 (init_game toy_rules e0)) =
      white_time (init_game toy_rules e0)"
    "black_time (frame_update toy_rules ?e4 (init_game toy_rules e0)) =
      black_time (init_game toy_rules e0)"
    by blast+
  then have d2: "white_time (frame_update toy_rules ?e4 (init_game toy_rules e0)) = 600"
    "black_time (frame_update toy_rules ?e4 (init_game toy_rules e0)) = 600"
    by (simp_all add: init_game_def)
  have rf: "run toy_rules (init_game toy_rules e0) game_flag = Inr st_flag"
    unfolding st_flag_def by (rule run_projr)
  have f0: "game_started st_flag" "white_time st_flag \<le> 0" by code_simp+
  from f rf f0 have f1: "game_over st_flag" "checkmate_popup st_flag" by blast+
  from g st_Qe2_run st_engine_turn_run
  have g1: "game_started st_engine_turn = (\<not> color_selection st_engine_turn)" by blast
  with st_engine_turn_facts(3) have g2: "game_started st_engine_turn" by simp
  have rw: "run toy_rules (init_game toy_rules e0) [frame_white] = Inr st_white"
    unfolding st_white_def by (rule run_projr)
  have rm: "run toy_rules st_white [frame_Kxg1 (Some (Move 8 0)) 3] =
      run toy_rules (init_game toy_rules e0) game_mated"
    by code_simp
  have rn: "running st_white" by code_simp
  have h0: "run_frame toy_rules st_white (frame_Kxg1 (Some (Move 8 0)) 3) = Inr st_mated"
  proof -
    from run_frame_inv [of toy_rules st_white "frame_Kxg1 (Some (Move 8 0)) 3"]
      run_inv [OF init_inv, of toy_rules e0 "[frame_white]"] rw
    obtain s' where s': "run_frame toy_rules st_white (frame_Kxg1 (Some (Move 8 0)) 3) = Inr s'"
      by auto
    with rn have "run toy_rules st_white [frame_Kxg1 (Some (Move 8 0)) 3] = Inr s'" by simp
    with rm st_mated_run have "s' = st_mated" by simp
    with s' show ?thesis by simp
  qed
  with h have h1: "\<exists>s1. run_events toy_rules st_white (fst (frame_Kxg1 (Some (Move 8 0)) 3)) = Inr s1 \<and>
         st_mated = frame_update toy_rules (snd (frame_Kxg1 (Some (Move 8 0)) 3)) s1"
    by blast
  from a0 sn st_selected_clock(6) lt a2 a4 b0 st_thinking_facts(3) st_thinking_clock(2,3,5)
    b2 b4 c2 d0 d2 rf f0 f1 st_Qe2_run st_engine_turn_run g2 st_engine_turn_facts(3) h1
  show ?thesis by blast
qed

lemma stranded_trivial:
  "\<not> game_over s \<Longrightarrow> stranded_by_clock s"
  "\<not> sel_nonempty s \<Longrightarrow> stranded_by_clock s"
  by (simp_all add: stranded_by_clock_def)

lemma stranded_cong:
  assumes "sel_nonempty s' = sel_nonempty s" "game_over s' = game_over s"
    "white_time s' = white_time s" "black_time s' = black_time s"
  shows "stranded_by_clock s' = stranded_by_clock s"
  unfolding stranded_by_clock_def assms ..

text \<open>
  In play, a press with the pointer on a piece that is not of the side to move, or not of
  the human's colour, leaves the four selection fields as they were, or empty.
\<close>

lemma press_on_other_piece:
  fixes s :: "'a game"
  assumes "handle_event R e s (MOUSEBUTTONDOWN q b) = Inr s'" and "\<not> color_selection s"
    and "pixel_to_square (player_color s) (mouse_get_pos e) = Some sq"
    and "piece_at R (cur (board s)) sq = Some x"
    and "color x \<noteq> turn R (cur (board s)) \<or> (\<exists>c. player_color s = Some c \<and> color x \<noteq> c)"
  shows "(selected_square s' = selected_square s \<and> valid_moves s' = valid_moves s \<and>
          selected_piece s' = selected_piece s \<and> selected_piece_pos s' = selected_piece_pos s) \<or>
         \<not> sel_nonempty s'"
proof -
  from assms(5) have ns: "\<not> selectable R s x"
    by (auto simp: selectable_def truthy_def WHITE_def BLACK_def)
  have "(if color_selection s then Inr (choose_color R e s q)
         else if \<not> game_over s \<and> \<not> ai_thinking s then Inr (mouse_down R e s q b)
         else Inr s) = (Inr s' :: py_error + 'a game)"
    using assms(1) unfolding handle_event_simps .
  with assms(2) have "s' = s \<or> s' = mouse_down R e s q b"
    by (cases "\<not> game_over s \<and> \<not> ai_thinking s") auto
  moreover have "mouse_down R e s q b = s \<or>
      mouse_down R e s q b = (reset_game R e s)\<lparr>color_selection := True\<rparr>"
    using mouse_down_cases [of R e s q b] assms(3,4) ns by auto
  ultimately have "s' = s \<or> s' = (reset_game R e s)\<lparr>color_selection := True\<rparr>" by auto
  then show ?thesis by (auto simp: reset_game_def sel_nonempty_def)
qed

lemma handle_event_stranded:
  fixes s :: "'a game"
  assumes inv: "game_inv R s" and j: "stranded_by_clock s"
    and h: "handle_event R e s ev = Inr s'"
  shows "stranded_by_clock s'"
proof (cases ev)
  case QUIT
  with h have "s' = s\<lparr>running := False\<rparr>" by (simp add: handle_event_simps)
  then have "stranded_by_clock s' = stranded_by_clock s"
    by (intro stranded_cong) (simp_all add: sel_nonempty_def)
  with j show ?thesis by simp
next
  case (MOUSEBUTTONDOWN q b)
  have "(if color_selection s then Inr (choose_color R e s q)
         else if \<not> game_over s \<and> \<not> ai_thinking s then Inr (mouse_down R e s q b)
         else Inr s) = (Inr s' :: py_error + 'a game)"
    using h unfolding MOUSEBUTTONDOWN handle_event_simps .
  then have "(color_selection s \<and> s' = choose_color R e s q) \<or>
      (\<not> game_over s \<and> s' = mouse_down R e s q b) \<or> s' = s"
    by (cases "color_selection s"; cases "\<not> game_over s \<and> \<not> ai_thinking s") simp_all
  then consider (c) "color_selection s" "s' = choose_color R e s q"
    | (d) "\<not> game_over s" "s' = mouse_down R e s q b"
    | (n) "s' = s"
    by blast
  then show ?thesis
  proof cases
    case c
    from inv c(1) have "\<not> game_over s" by (simp add: game_inv_def)
    moreover have "game_over (choose_color R e s q) = game_over s"
      using choose_color_cases [of R e s q]
      by (elim disjE exE conjE) (simp_all add: apply_first_move_frame)
    ultimately show ?thesis using c(2) by (simp add: stranded_trivial)
  next
    case d
    have "game_over (mouse_down R e s q b) = game_over s \<or> \<not> game_over (mouse_down R e s q b)"
      using mouse_down_cases [of R e s q b]
      by (elim disjE exE conjE) (simp_all add: reset_game_def)
    with d show ?thesis by (auto simp: stranded_trivial)
  next
    case n
    with j show ?thesis by simp
  qed
next
  case (MOUSEBUTTONUP q b)
  have "(if color_selection s then Inr s
         else if \<not> game_over s \<and> \<not> ai_thinking s then Inr (mouse_up R e s b)
         else Inr s) = (Inr s' :: py_error + 'a game)"
    using h unfolding MOUSEBUTTONUP handle_event_simps .
  then have "s' = mouse_up R e s b \<or> s' = s"
    by (cases "color_selection s"; cases "\<not> game_over s \<and> \<not> ai_thinking s") simp_all
  then consider (d) "s' = mouse_up R e s b" | (n) "s' = s"
    by blast
  then show ?thesis
  proof cases
    case d
    from mouse_up_cases [of R e s b]
    have "mouse_up R e s b = s \<or> \<not> sel_nonempty (mouse_up R e s b)"
      by (elim disjE exE conjE) (simp_all add: clear_selection_def sel_nonempty_def)
    with d j show ?thesis by (auto simp: stranded_trivial)
  next
    case n
    with j show ?thesis by simp
  qed
next
  case (MOUSEMOTION q)
  have "(if color_selection s then Inr s
         else if str_truthy (selected_piece s) then Inr (s\<lparr>selected_piece_pos := Some q\<rparr>)
         else Inr s) = (Inr s' :: py_error + 'a game)"
    using h unfolding MOUSEMOTION handle_event_simps .
  then have "(str_truthy (selected_piece s) \<and> s' = s\<lparr>selected_piece_pos := Some q\<rparr>) \<or> s' = s"
    by (cases "color_selection s"; cases "str_truthy (selected_piece s)") simp_all
  then consider (m) "str_truthy (selected_piece s)" "s' = s\<lparr>selected_piece_pos := Some q\<rparr>"
    | (n) "s' = s"
    by blast
  then show ?thesis
  proof cases
    case m
    from m(1) have "selected_piece s \<noteq> None" by (auto simp: str_truthy_def split: option.splits)
    then have "sel_nonempty s" "sel_nonempty (s\<lparr>selected_piece_pos := Some q\<rparr>)"
      by (simp_all add: sel_nonempty_def)
    then have "stranded_by_clock (s\<lparr>selected_piece_pos := Some q\<rparr>) = stranded_by_clock s"
      by (intro stranded_cong) simp_all
    with m(2) j show ?thesis by simp
  next
    case n
    with j show ?thesis by simp
  qed
next
  case (KEYDOWN k)
  have hk: "(if color_selection s then Inr s else key_down R e s k) = (Inr s' :: py_error + 'a game)"
    using h unfolding KEYDOWN handle_event_simps .
  have "s' = s \<or> s' = (reset_game R e s)\<lparr>color_selection := True\<rparr> \<or> undo s = Inr s'"
  proof (cases "color_selection s")
    case True
    with hk show ?thesis by simp
  next
    case False
    with hk have kd: "key_down R e s k = Inr s'" by simp
    show ?thesis
    proof (cases k)
      case K_r
      with kd show ?thesis by (simp add: key_down_def)
    next
      case K_u
      with kd show ?thesis by (cases "2 \<le> length (move_history s)") (simp_all add: key_down_def)
    next
      case K_other
      with kd show ?thesis by (simp add: key_down_def)
    qed
  qed
  then consider (n) "s' = s" | (r) "s' = (reset_game R e s)\<lparr>color_selection := True\<rparr>"
    | (u) "undo s = Inr s'"
    by blast
  then show ?thesis
  proof cases
    case n
    with j show ?thesis by simp
  next
    case r
    then have "\<not> game_over s'" by (simp add: reset_game_def)
    then show ?thesis by (rule stranded_trivial)
  next
    case u
    with undo_cases [of s] have "\<not> game_over s'" by auto
    then show ?thesis by (rule stranded_trivial)
  qed
next
  case OTHER
  with h have "s' = s" by (simp add: handle_event_simps)
  with j show ?thesis by simp
qed

lemma frame_update_stranded:
  assumes inv: "game_inv R s" and j: "stranded_by_clock s"
  shows "stranded_by_clock (frame_update R e s)"
proof (cases "color_selection s")
  case True
  with j show ?thesis by (simp add: frame_update_def)
next
  case False
  let ?a = "ai_step R e s"
  have f: "frame_update R e s = update_timer R (time_now e) ?a"
    using False by (simp add: frame_update_def)
  have ja: "stranded_by_clock ?a"
  proof -
    consider (same) "?a = s" | (none) "?a = s\<lparr>ai_thinking := False\<rparr>"
      | (move) m where "ai_thinking s" "?a = (apply_ai_move R s m)\<lparr>ai_thinking := False\<rparr>"
      using ai_step_cases [of R e s] by blast
    then show ?thesis
    proof cases
      case same
      with j show ?thesis by simp
    next
      case none
      have "stranded_by_clock (s\<lparr>ai_thinking := False\<rparr>) = stranded_by_clock s"
        by (intro stranded_cong) (simp_all add: sel_nonempty_def)
      with none j show ?thesis by simp
    next
      case move
      from move(1) inv have "\<not> sel_nonempty s" by (auto simp: game_inv_def)
      then have "\<not> sel_nonempty ((apply_ai_move R s m)\<lparr>ai_thinking := False\<rparr>)"
        by (simp add: sel_nonempty_def apply_ai_move_frame)
      with move(2) show ?thesis by (simp add: stranded_trivial)
    qed
  qed
  show ?thesis
  proof (cases "game_started ?a \<and> \<not> game_over ?a")
    case False
    then have "update_timer R (time_now e) ?a = ?a" by (auto simp: update_timer_def)
    with ja f show ?thesis by simp
  next
    case True
    with update_timer_clock [of ?a R "time_now e"]
    have "game_over (frame_update R e s) =
        (white_time (frame_update R e s) \<le> 0 \<or> black_time (frame_update R e s) \<le> 0)"
      unfolding f by blast
    then show ?thesis by (simp add: stranded_by_clock_def)
  qed
qed

lemma run_events_stranded:
  "game_inv R s \<Longrightarrow> stranded_by_clock s \<Longrightarrow> run_events R s evs = Inr s' \<Longrightarrow>
   stranded_by_clock s'"
proof (induction evs arbitrary: s)
  case Nil
  then show ?case by simp
next
  case (Cons a evs)
  obtain ev e where a: "a = (ev, e)" by (cases a)
  from handle_event_inv [OF Cons.prems(1), of e ev]
  obtain s1 where s1: "handle_event R e s ev = Inr s1" "game_inv R s1" by blast
  have j1: "stranded_by_clock s1"
    using Cons.prems(1,2) s1(1) by (rule handle_event_stranded)
  from Cons.prems(3) a s1(1) have "run_events R s1 evs = Inr s'" by simp
  from Cons.IH [OF s1(2) j1 this] show ?case .
qed

lemma run_stranded:
  "game_inv R s \<Longrightarrow> stranded_by_clock s \<Longrightarrow> run R s frs = Inr s' \<Longrightarrow> stranded_by_clock s'"
proof (induction frs arbitrary: s)
  case Nil
  then show ?case by simp
next
  case (Cons fr frs)
  show ?case
  proof (cases "running s")
    case False
    with Cons.prems show ?thesis by simp
  next
    case True
    from run_events_inv [OF Cons.prems(1), of "fst fr"]
    obtain s1 where s1: "run_events R s (fst fr) = Inr s1" "game_inv R s1" by blast
    have j1: "stranded_by_clock s1"
      using Cons.prems(1,2) s1(1) by (rule run_events_stranded)
    let ?s2 = "frame_update R (snd fr) s1"
    have rf: "run_frame R s fr = Inr ?s2" using s1(1) by (simp add: run_frame_def)
    have i2: "game_inv R ?s2" using s1(2) by (rule frame_update_inv)
    have j2: "stranded_by_clock ?s2" using s1(2) j1 by (rule frame_update_stranded)
    from Cons.prems(3) True rf have "run R ?s2 frs = Inr s'" by simp
    from Cons.IH [OF i2 j2 this] show ?thesis .
  qed
qed

text \<open>
  In every state of a run, at the end of a frame or between two events, in which the
  selection is not empty: the colour selection is over, the engine is not thinking and the
  side to move is the human's; and if the game is over, a countdown is at or below zero.
\<close>

lemma selection_in_runs:
  assumes "run R (init_game R ei) frs = Inr s0" and "run_events R s0 evs = Inr s"
    and "sel_nonempty s"
  shows "\<not> color_selection s \<and> \<not> ai_thinking s \<and>
         player_color s = Some (turn R (cur (board s))) \<and>
         (game_over s \<longrightarrow> white_time s \<le> 0 \<or> black_time s \<le> 0)"
proof -
  from run_inv [OF init_inv, of R ei frs] assms(1) have i0: "game_inv R s0" by auto
  have "stranded_by_clock (init_game R ei)"
    by (simp add: stranded_by_clock_def init_game_def)
  from run_stranded [OF init_inv this assms(1)] have j0: "stranded_by_clock s0" .
  from run_events_inv [OF i0, of evs] assms(2) have i: "game_inv R s" by auto
  from run_events_stranded [OF i0 j0 assms(2)] have j: "stranded_by_clock s" .
  from i j assms(3) show ?thesis by (auto simp: game_inv_def stranded_by_clock_def)
qed

end
